theory Spec2Isabelle
  imports Main "HOL-Library.Char_ord" "HOL-Library.List_Lexorder"
begin

section \<open>Python strings\<close>

text \<open>
  A Python \<open>str\<close> is modelled as a \<^typ>\<open>string\<close>: a list of characters whose code
  points lie below 256. Comparison of strings is comparison of code points, position by
  position, which is the lexicographic order on \<^typ>\<open>char list\<close>.
\<close>

definition isspace :: "char \<Rightarrow> bool" where
  \<comment> \<open>\<open>str.isspace\<close> on one character: TAB, LF, VT, FF, CR, FS, GS, RS, US, space, NEL, NBSP.\<close>
  "isspace c = (c \<in> set [CHR 0x09, CHR 0x0A, CHR 0x0B, CHR 0x0C, CHR 0x0D, CHR 0x1C,
                          CHR 0x1D, CHR 0x1E, CHR 0x1F, CHR 0x20, CHR 0x85, CHR 0xA0])"

definition strip :: "string \<Rightarrow> string" where
  \<comment> \<open>\<open>s.strip()\<close>: leading and trailing whitespace removed.\<close>
  "strip s = rev (dropWhile isspace (rev (dropWhile isspace s)))"

definition lower_char :: "char \<Rightarrow> char" where
  \<comment> \<open>\<open>str.lower\<close> on one character below 256: A-Z, and the Latin-1 capitals but the
      multiplication sign, move up by 32.\<close>
  "lower_char c =
     (let n = (of_char c :: nat)
      in if (65 \<le> n \<and> n \<le> 90) \<or> (192 \<le> n \<and> n \<le> 222 \<and> n \<noteq> 215)
         then char_of (n + 32) else c)"

definition lower :: "string \<Rightarrow> string" where
  "lower s = map lower_char s"

definition replace_char :: "char \<Rightarrow> string \<Rightarrow> string \<Rightarrow> string" where
  \<comment> \<open>\<open>s.replace(old, new)\<close> for a one-character \<open>old\<close>.\<close>
  "replace_char old new s = concat (map (\<lambda>c. if c = old then new else [c]) s)"

definition startswith :: "string \<Rightarrow> string \<Rightarrow> bool" where
  "startswith s pre = (take (length pre) s = pre)"

definition endswith :: "string \<Rightarrow> string \<Rightarrow> bool" where
  "endswith s suf = (length suf \<le> length s \<and> drop (length s - length suf) s = suf)"

definition removeprefix :: "string \<Rightarrow> string \<Rightarrow> string" where
  "removeprefix s pre = (if startswith s pre then drop (length pre) s else s)"

fun contains :: "string \<Rightarrow> string \<Rightarrow> bool" where
  \<comment> \<open>\<open>q in s\<close>: \<open>q\<close> occurs in \<open>s\<close> as a contiguous run.\<close>
  "contains [] q = (q = [])"
| "contains (c # s) q = (startswith (c # s) q \<or> contains s q)"

fun join :: "string \<Rightarrow> string list \<Rightarrow> string" where
  \<comment> \<open>\<open>sep.join(xs)\<close>\<close>
  "join sep [] = []"
| "join sep [x] = x"
| "join sep (x # y # xs) = x @ sep @ join sep (y # xs)"

section \<open>Shell patterns of the standard library\<close>

text \<open>
  \<open>fnmatch.fnmatch(name, pat)\<close> of the Python standard library, on a POSIX system
  (where \<open>os.path.normcase\<close> changes nothing). The library translates the pattern into a
  regular expression that must match the whole name; the model reads the pattern into
  tokens of the same meaning. \<open>*\<close> stands for any run of characters, \<open>/\<close> included;
  \<open>?\<close> for any one character; \<open>[seq]\<close> for one character of a set, \<open>[!seq]\<close> for one
  character outside it; a \<open>[\<close> that no \<open>]\<close> closes stands for itself.
\<close>

datatype tok =
    Star
  | AnyChar
  | Never
  | Lit char
  | CharSet bool "string list"
    \<comment> \<open>negated or not; the chunks of the set: every character of a chunk belongs to the
        set, and so does the range from the last character of a chunk to the first
        character of the next\<close>

definition find_from :: "char \<Rightarrow> nat \<Rightarrow> string \<Rightarrow> nat option" where
  \<comment> \<open>\<open>s.find(c, k)\<close>, with \<open>None\<close> for -1\<close>
  "find_from c k s =
     (if c \<in> set (drop k s) then Some (k + length (takeWhile (\<lambda>x. x \<noteq> c) (drop k s)))
      else None)"

function chunks_of :: "string \<Rightarrow> nat \<Rightarrow> string list" where
  \<comment> \<open>the loop that cuts the text of a set at the hyphens that make ranges: \<open>cur\<close> is the
      text from the current start, \<open>k\<close> the offset from which the next hyphen is looked for\<close>
  "chunks_of cur k =
     (case find_from (CHR ''-'') k cur of
        None \<Rightarrow> [cur]
      | Some h \<Rightarrow> take h cur # chunks_of (drop (Suc h) cur) 2)"
  by pat_completeness auto
termination
proof (relation "measure (\<lambda>(cur, k). length cur)")
  show "wf (measure (\<lambda>(cur :: string, k :: nat). length cur))" by simp
next
  fix cur :: string and k h :: nat
  assume found: "find_from (CHR ''-'') k cur = Some h"
  have shorter: "length (takeWhile (\<lambda>x. x \<noteq> c) xs) < length xs" if "c \<in> set xs"
    for c :: char and xs
    using that by (induction xs) auto
  from found have m: "CHR ''-'' \<in> set (drop k cur)"
    and h: "h = k + length (takeWhile (\<lambda>x. x \<noteq> CHR ''-'') (drop k cur))"
    by (auto simp: find_from_def split: if_splits)
  from shorter [OF m]
  have "length (takeWhile (\<lambda>x. x \<noteq> CHR ''-'') (drop k cur)) < length cur - k"
    by simp
  with h have "h < length cur" by simp
  then show "((drop (Suc h) cur, 2), (cur, k)) \<in> measure (\<lambda>(cur, k). length cur)"
    by simp
qed

fun close_last :: "string list \<Rightarrow> string list" where
  \<comment> \<open>an empty last chunk means the set ends in a hyphen, which then stands for itself:
      \<open>chunks[-1] += '-'\<close>\<close>
  "close_last [] = []"
| "close_last [c] = [c]"
| "close_last [c, d] = (if d = [] then [c @ ''-''] else [c, d])"
| "close_last (c # d # cs) = c # close_last (d # cs)"

fun drop_empty_ranges :: "string list \<Rightarrow> string list" where
  \<comment> \<open>the loop from the right that removes a range whose start lies above its end, gluing
      the two chunks around it\<close>
  "drop_empty_ranges [] = []"
| "drop_empty_ranges [c] = [c]"
| "drop_empty_ranges (c # cs) =
     (case drop_empty_ranges cs of
        [] \<Rightarrow> [c]
      | d # ds \<Rightarrow>
          if c \<noteq> [] \<and> d \<noteq> [] \<and> last c > hd d then (butlast c @ tl d) # ds
          else c # d # ds)"

definition set_token :: "string \<Rightarrow> tok" where
  \<comment> \<open>the token of the set whose text, between the brackets, is \<open>stuff\<close>\<close>
  "set_token stuff =
     (let chunks =
            (if CHR ''-'' \<notin> set stuff then [stuff]
             else drop_empty_ranges
                    (close_last (chunks_of stuff (if take 1 stuff = ''!'' then 2 else 1))));
          joined = join ''-'' chunks
      in if joined = [] then Never
         else if joined = ''!'' then AnyChar
         else if hd joined = CHR ''!''
              then CharSet True (tl (hd chunks) # tl chunks)
              else CharSet False chunks)"

definition bracket_end :: "string \<Rightarrow> nat option" where
  \<comment> \<open>the offset, in the text after an opening bracket, of the bracket that closes it: a
      leading \<open>!\<close> and a \<open>]\<close> right after it are passed over first\<close>
  "bracket_end r =
     (let j = (if take 1 r = ''!'' then 1 else 0);
          j = (if take 1 (drop j r) = '']'' then Suc j else j)
      in find_from (CHR '']'') j r)"

function translate :: "string \<Rightarrow> tok list" where
  "translate [] = []"
| "translate (c # r) =
     (if c = CHR ''*'' then Star # translate r
      else if c = CHR ''?'' then AnyChar # translate r
      else if c = CHR ''[''
           then (case bracket_end r of
                   None \<Rightarrow> Lit c # translate r
                 | Some j \<Rightarrow> set_token (take j r) # translate (drop (Suc j) r))
      else Lit c # translate r)"
  by pat_completeness auto
termination
  by (relation "measure length") auto

fun in_ranges :: "string list \<Rightarrow> char \<Rightarrow> bool" where
  "in_ranges (c # d # cs) x =
     ((c \<noteq> [] \<and> d \<noteq> [] \<and> last c \<le> x \<and> x \<le> hd d) \<or> in_ranges (d # cs) x)"
| "in_ranges _ x = False"

definition in_set :: "string list \<Rightarrow> char \<Rightarrow> bool" where
  "in_set chunks x = ((\<exists>c \<in> set chunks. x \<in> set c) \<or> in_ranges chunks x)"

fun tok_matches :: "tok \<Rightarrow> char \<Rightarrow> bool" where
  "tok_matches Star x = True"
| "tok_matches AnyChar x = True"
| "tok_matches Never x = False"
| "tok_matches (Lit c) x = (x = c)"
| "tok_matches (CharSet neg chunks) x = (neg \<noteq> in_set chunks x)"

fun toks_match :: "tok list \<Rightarrow> string \<Rightarrow> bool" where
  "toks_match [] s = (s = [])"
| "toks_match (Star # ts) [] = toks_match ts []"
| "toks_match (Star # ts) (x # s) = (toks_match ts (x # s) \<or> toks_match (Star # ts) s)"
| "toks_match (t # ts) [] = False"
| "toks_match (t # ts) (x # s) = (tok_matches t x \<and> toks_match ts s)"

definition fnmatch :: "string \<Rightarrow> string \<Rightarrow> bool" where
  "fnmatch name pat = toks_match (translate pat) name"

section \<open>Pattern matching helpers\<close>

definition normalize_glob :: "string \<Rightarrow> string" where
  "normalize_glob pat =
     (let s = replace_char (CHR 0x5C) ''/'' (strip pat);
          s = removeprefix s ''./'';
          s = (if length s > 1 \<and> endswith s ''/'' then butlast s else s)
      in s)"

fun matches_patterns :: "string \<Rightarrow> string list \<Rightarrow> bool" where
  "matches_patterns path_str [] = False"
| "matches_patterns path_str (raw # patterns) =
     (let ps = replace_char (CHR 0x5C) ''/'' path_str;
          pat = normalize_glob raw
      in if pat = [] then matches_patterns path_str patterns
         else if ps = pat then True
         else if fnmatch ps pat then True
         else if CHR ''/'' \<notin> set pat \<and> startswith ps (pat @ ''/'') then True
         else matches_patterns path_str patterns)"

section \<open>Paths and the file system\<close>

text \<open>
  A relative \<open>Path\<close> is the list of its parts; paths are equal when their parts are, and
  ordered as the lists of their parts are. The file system under a directory is a tree
  whose directories list their entries in the order \<open>os.scandir\<close> gives them. The text
  of a directory path is taken as absolute and free of symbolic links, so that
  \<open>resolve()\<close> leaves it as it is.
\<close>

type_synonym path = "string list"

definition path_str :: "path \<Rightarrow> string" where
  \<comment> \<open>\<open>str(p)\<close>\<close>
  "path_str p = (if p = [] then ''.'' else join ''/'' p)"

fun split_on :: "char \<Rightarrow> string \<Rightarrow> string list" where
  \<comment> \<open>\<open>s.split(c)\<close>\<close>
  "split_on c [] = [[]]"
| "split_on c (x # xs) =
     (if x = c then [] # split_on c xs
      else (case split_on c xs of [] \<Rightarrow> [[x]] | r # rs \<Rightarrow> (x # r) # rs))"

definition Path_of :: "string \<Rightarrow> path" where
  \<comment> \<open>\<open>Path(s)\<close> for the text of a relative path: empty parts and \<open>.\<close> parts vanish\<close>
  "Path_of s = filter (\<lambda>part. part \<noteq> [] \<and> part \<noteq> ''.'') (split_on (CHR ''/'') s)"

datatype node = File | Dir "(string \<times> node) list"

type_synonym filesystem = "string \<Rightarrow> node option"

definition is_dir :: "filesystem \<Rightarrow> string \<Rightarrow> bool" where
  "is_dir fs d = (case fs d of Some (Dir es) \<Rightarrow> True | _ \<Rightarrow> False)"

definition exists_under :: "filesystem \<Rightarrow> string \<Rightarrow> string \<Rightarrow> bool" where
  \<comment> \<open>\<open>(root / d).exists()\<close> for a name \<open>d\<close> without a slash\<close>
  "exists_under fs root d =
     (case fs root of Some (Dir es) \<Rightarrow> d \<in> fst ` set es | _ \<Rightarrow> False)"

fun is_Dir_entry :: "string \<times> node \<Rightarrow> bool" where
  "is_Dir_entry (n, Dir es) = True"
| "is_Dir_entry (n, File) = False"

fun walk :: "path \<Rightarrow> node \<Rightarrow> (path \<times> string list \<times> string list) list"
  and walk_entries :: "path \<Rightarrow> (string \<times> node) list \<Rightarrow> (path \<times> string list \<times> string list) list"
  where
  \<comment> \<open>\<open>os.walk\<close>, top down: a directory gives its path, the names of its directories and
      the names of its other entries, then what its directories give, in their order\<close>
  "walk dp File = []"
| "walk dp (Dir es) =
     (dp, map fst (filter is_Dir_entry es), map fst (filter (\<lambda>e. \<not> is_Dir_entry e) es))
       # walk_entries dp es"
| "walk_entries dp [] = []"
| "walk_entries dp ((n, e) # es) = walk (dp @ [n]) e @ walk_entries dp es"

definition BINARY_SUFFIXES :: "string list" where
  "BINARY_SUFFIXES = [''.png'', ''.jpg'', ''.jpeg'', ''.gif'', ''.webp'', ''.pdf'', ''.zip'',
                      ''.7z'', ''.tar'', ''.gz'', ''.bz2'']"

definition discover_files :: "filesystem \<Rightarrow> string \<Rightarrow> path list" where
  "discover_files fs root =
     (case fs root of
        None \<Rightarrow> []
      | Some t \<Rightarrow>
          sort (concat (map (\<lambda>(dp, dirnames, filenames).
                  map (\<lambda>name. dp @ [name])
                    (filter (\<lambda>name. \<not> list_ex (endswith name) BINARY_SUFFIXES) filenames))
                (walk [] t))))"

section \<open>The frame and its state\<close>

definition IGNORED_DIRS_DEFAULT :: "string set" where
  "IGNORED_DIRS_DEFAULT =
     {''.git'', ''.hg'', ''.svn'', ''.idea'', ''.vscode'', ''node_modules'', ''dist'', ''build'',
      ''__pycache__'', ''.venv'', ''.gitignore'', ''uv.lock''}"

text \<open>
  The fields of the frame that the selection, the command and the cache read or write.
  A widget is the value it holds, and setting that value is an assignment: the events
  that the toolkit raises in response, and the handlers they would run, are not part of
  the model. The log is left out. Every handler ends by writing \<open>persist_state\<close> of
  the state it leaves to the cache file; the handlers below return that state.
\<close>

record state =
  root_path :: "string option"
  all_files :: "path list"
  visible_files :: "path list"
  excluded_files_set :: "path set"
  ignore_patterns :: "string list"
  ignore_defaults_optout :: "string set"
  dir_picker :: string
  output_name :: string
  style_choice :: string
  filter_input :: string
  header_text :: string
  instructions_picker :: string
  cb_parsable :: bool
  cb_compress :: bool
  cb_line_numbers :: bool
  cb_no_file_summary :: bool
  cb_no_dir_structure :: bool
  cb_no_files :: bool
  cb_remove_comments :: bool
  cb_remove_empty :: bool
  cb_truncate_b64 :: bool
  cb_include_empty_dirs :: bool
  cb_no_git_sort :: bool
  cb_include_diffs :: bool
  cb_include_logs :: bool
  files_list :: "string list"
  excluded_files_box :: "string list"
  ignore_patterns_box :: "string list"
  cmd_preview :: string

definition str_or :: "string \<Rightarrow> string \<Rightarrow> string" where
  \<comment> \<open>\<open>x or y\<close> on strings: the empty string is false\<close>
  "str_or x y = (if x = [] then y else x)"

definition is_ignored_path :: "state \<Rightarrow> path \<Rightarrow> bool" where
  "is_ignored_path st p = matches_patterns (path_str p) (ignore_patterns st)"

definition reload_files_list :: "state \<Rightarrow> state" where
  "reload_files_list st =
     (let q = lower (strip (str_or (filter_input st) []));
          base = filter (\<lambda>p. \<not> is_ignored_path st p \<and> p \<notin> excluded_files_set st) (all_files st);
          vis = (if q \<noteq> [] then filter (\<lambda>p. contains (lower (path_str p)) q) base else base)
      in st\<lparr>visible_files := vis,
            files_list := map path_str vis,
            excluded_files_box :=
              map path_str (filter (\<lambda>p. \<not> is_ignored_path st p)
                                   (sorted_list_of_set (excluded_files_set st)))\<rparr>)"

subsection \<open>Build command\<close>

definition add_flag :: "bool \<Rightarrow> string \<Rightarrow> string list \<Rightarrow> string list" where
  "add_flag cb flag cmd = (if cb then cmd @ [flag] else cmd)"

definition build_command :: "state \<Rightarrow> string list" where
  "build_command st =
     (let cmd = [''repomix''];
          out_name = strip (str_or (output_name st) ''repomix_output.md'');
          cmd = (if out_name \<noteq> [] then cmd @ [''-o'', out_name] else cmd);
          style = str_or (style_choice st) ''markdown'';
          cmd = (if style \<noteq> [] then cmd @ [''--style'', style] else cmd);
          cmd = add_flag (cb_parsable st) ''--parsable-style'' cmd;
          cmd = add_flag (cb_compress st) ''--compress'' cmd;
          cmd = add_flag (cb_line_numbers st) ''--output-show-line-numbers'' cmd;
          cmd = add_flag (cb_no_file_summary st) ''--no-file-summary'' cmd;
          cmd = add_flag (cb_no_dir_structure st) ''--no-directory-structure'' cmd;
          cmd = add_flag (cb_no_files st) ''--no-files'' cmd;
          cmd = add_flag (cb_remove_comments st) ''--remove-comments'' cmd;
          cmd = add_flag (cb_remove_empty st) ''--remove-empty-lines'' cmd;
          cmd = add_flag (cb_truncate_b64 st) ''--truncate-base64'' cmd;
          cmd = add_flag (cb_include_empty_dirs st) ''--include-empty-directories'' cmd;
          cmd = add_flag (cb_no_git_sort st) ''--no-git-sort-by-changes'' cmd;
          cmd = add_flag (cb_include_diffs st) ''--include-diffs'' cmd;
          cmd = add_flag (cb_include_logs st) ''--include-logs'' cmd;
          ht = strip (str_or (header_text st) []);
          cmd = (if ht \<noteq> [] then cmd @ [''--header-text'', ht] else cmd);
          instr = strip (str_or (instructions_picker st) []);
          cmd = (if instr \<noteq> [] then cmd @ [''--instruction-file-path'', instr] else cmd);
          ignore_items = [];
          ignore_items = (if ignore_patterns st \<noteq> [] then ignore_items @ ignore_patterns st
                          else ignore_items);
          ignore_items = (if excluded_files_set st \<noteq> {}
                          then ignore_items @ map path_str (sorted_list_of_set (excluded_files_set st))
                          else ignore_items);
          cmd = (if ignore_items \<noteq> [] then cmd @ [''--ignore'', join '','' ignore_items] else cmd)
      in cmd)"

definition SHELL_SPECIALS :: string where
  \<comment> \<open>space, tab, the two quotes, \<open>*$&()[]{};|<>\<close> and the backtick\<close>
  "SHELL_SPECIALS =
     [CHR 0x20, CHR 0x09, CHR 0x22, CHR 0x27, CHR ''*'', CHR ''$'', CHR ''&'', CHR ''('', CHR '')'',
      CHR ''['', CHR '']'', CHR ''{'', CHR ''}'', CHR '';'', CHR ''|'', CHR ''<'', CHR ''>'', CHR 0x60]"

definition shell_quote :: "string \<Rightarrow> string" where
  "shell_quote s =
     (if s = [] \<or> list_ex (\<lambda>ch. ch \<in> set s) SHELL_SPECIALS
      then [CHR 0x22] @ replace_char (CHR 0x22) [CHR 0x5C, CHR 0x22] s @ [CHR 0x22]
      else s)"

definition update_cmd_preview :: "state \<Rightarrow> state" where
  "update_cmd_preview st = st\<lparr>cmd_preview := join '' '' (map shell_quote (build_command st))\<rparr>"

subsection \<open>Default ignores and rescans\<close>

definition ensure_step ::
  "filesystem \<Rightarrow> string \<Rightarrow> string set \<Rightarrow> string list \<times> string set \<Rightarrow> string \<Rightarrow> string list \<times> string set" where
  \<comment> \<open>one turn of the loop over the sorted default names, on the pattern list and the set
      \<open>existing\<close>\<close>
  "ensure_step fs root optout acc d =
     (case acc of (pats, existing) \<Rightarrow>
        if exists_under fs root d
        then (if d \<notin> existing \<and> d \<notin> optout then (pats @ [d], insert d existing)
              else (pats, existing))
        else (pats, existing))"

definition ensure_default_ignores_exist :: "filesystem \<Rightarrow> state \<Rightarrow> state" where
  "ensure_default_ignores_exist fs st =
     (case root_path st of
        None \<Rightarrow> st
      | Some root \<Rightarrow>
          st\<lparr>ignore_patterns :=
               fst (foldl (ensure_step fs root (ignore_defaults_optout st))
                          (ignore_patterns st, set (ignore_patterns st))
                          (sorted_list_of_set IGNORED_DIRS_DEFAULT))\<rparr>)"

definition rescan_and_update :: "filesystem \<Rightarrow> state \<Rightarrow> state" where
  "rescan_and_update fs st =
     (case root_path st of
        None \<Rightarrow> st
      | Some root \<Rightarrow>
          (let st = st\<lparr>all_files := discover_files fs root\<rparr>;
               st = ensure_default_ignores_exist fs st;
               st = st\<lparr>visible_files := all_files st\<rparr>;
               st = reload_files_list st;
               st = st\<lparr>ignore_patterns_box := ignore_patterns st\<rparr>
           in update_cmd_preview st))"

definition on_refresh :: "filesystem \<Rightarrow> state \<Rightarrow> state" where
  "on_refresh fs st =
     (case root_path st of
        None \<Rightarrow> st
      | Some root \<Rightarrow>
          (let st = st\<lparr>all_files := discover_files fs root\<rparr>;
               st = st\<lparr>excluded_files_set := {}\<rparr>;
               st = ensure_default_ignores_exist fs st;
               st = st\<lparr>visible_files := all_files st\<rparr>;
               st = reload_files_list st;
               st = st\<lparr>ignore_patterns_box := ignore_patterns st\<rparr>
           in update_cmd_preview st))"

subsection \<open>Removing ignore patterns\<close>

datatype error = IndexError

fun index_all :: "'a list \<Rightarrow> nat list \<Rightarrow> error + 'a list" where
  \<comment> \<open>\<open>[xs[i] for i in sel]\<close>\<close>
  "index_all xs [] = Inr []"
| "index_all xs (i # sel) =
     (if i < length xs
      then (case index_all xs sel of Inl e \<Rightarrow> Inl e | Inr ys \<Rightarrow> Inr (xs ! i # ys))
      else Inl IndexError)"

fun pop_all :: "nat list \<Rightarrow> 'a list \<Rightarrow> error + 'a list" where
  \<comment> \<open>\<open>for i in sel: xs.pop(i)\<close>\<close>
  "pop_all [] xs = Inr xs"
| "pop_all (i # sel) xs =
     (if i < length xs then pop_all sel (take i xs @ drop (Suc i) xs) else Inl IndexError)"

definition delete_at :: "nat \<Rightarrow> 'a list \<Rightarrow> 'a list" where
  \<comment> \<open>the list box's \<open>Delete(i)\<close>\<close>
  "delete_at i xs = take i xs @ drop (Suc i) xs"

definition matches_any :: "path \<Rightarrow> string list \<Rightarrow> bool" where
  "matches_any p patterns =
     matches_patterns (replace_char (CHR 0x5C) ''/'' (path_str p)) patterns"

definition on_remove_ignore :: "filesystem \<Rightarrow> nat list \<Rightarrow> state \<Rightarrow> error + state" where
  \<comment> \<open>\<open>sel\<close> is what \<open>GetSelections()\<close> of the pattern list box returns\<close>
  "on_remove_ignore fs sel st =
     (case index_all (ignore_patterns st) sel of
        Inl e \<Rightarrow> Inl e
      | Inr removed_patterns \<Rightarrow>
          (case pop_all (rev sel) (ignore_patterns st) of
             Inl e \<Rightarrow> Inl e
           | Inr remaining \<Rightarrow>
               (let st = st\<lparr>ignore_patterns := remaining,
                             ignore_patterns_box := fold delete_at (rev sel) (ignore_patterns_box st)\<rparr>;
                    to_unexclude = {p \<in> excluded_files_set st.
                                      matches_any p removed_patterns \<and> \<not> matches_any p remaining};
                    st = st\<lparr>excluded_files_set := excluded_files_set st - to_unexclude\<rparr>;
                    st = st\<lparr>ignore_defaults_optout :=
                               foldl (\<lambda>optout rp. if rp \<in> IGNORED_DIRS_DEFAULT then insert rp optout
                                                   else optout)
                                     (ignore_defaults_optout st) removed_patterns\<rparr>
                in Inr (rescan_and_update fs st))))"

subsection \<open>State cache\<close>

text \<open>
  The cache file holds one JSON object. The model keeps the objects whose keys, where
  present, hold values of the types that saving writes: a key that is absent is \<open>None\<close>.
  The array of opt-outs is written in the order Python iterates over a set, which is not
  fixed, and is read back into a set: it is modelled as the set of its elements.
\<close>

record saved =
  j_last_dir :: "string option"
  j_output_name :: "string option"
  j_style :: "string option"
  j_header_text :: "string option"
  j_instruction_file_path :: "string option"
  j_flags :: "(string \<rightharpoonup> bool) option"
  j_ignore_patterns :: "string list option"
  j_ignore_defaults_optout :: "string set option"
  j_excluded_files :: "string list option"

definition persist_state :: "state \<Rightarrow> saved" where
  "persist_state st =
     \<lparr>j_last_dir = Some (dir_picker st),
      j_output_name = Some (output_name st),
      j_style = Some (style_choice st),
      j_header_text = Some (header_text st),
      j_instruction_file_path = Some (instructions_picker st),
      j_flags = Some
        [''parsable'' \<mapsto> cb_parsable st,
         ''compress'' \<mapsto> cb_compress st,
         ''line_numbers'' \<mapsto> cb_line_numbers st,
         ''no_file_summary'' \<mapsto> cb_no_file_summary st,
         ''no_directory_structure'' \<mapsto> cb_no_dir_structure st,
         ''no_files'' \<mapsto> cb_no_files st,
         ''remove_comments'' \<mapsto> cb_remove_comments st,
         ''remove_empty'' \<mapsto> cb_remove_empty st,
         ''truncate_b64'' \<mapsto> cb_truncate_b64 st,
         ''include_empty_dirs'' \<mapsto> cb_include_empty_dirs st,
         ''no_git_sort'' \<mapsto> cb_no_git_sort st,
         ''include_diffs'' \<mapsto> cb_include_diffs st,
         ''include_logs'' \<mapsto> cb_include_logs st],
      j_ignore_patterns = Some (ignore_patterns st),
      j_ignore_defaults_optout = Some (ignore_defaults_optout st),
      j_excluded_files = Some (map path_str (sorted_list_of_set (excluded_files_set st)))\<rparr>"

definition get_or :: "string option \<Rightarrow> string \<Rightarrow> string" where
  \<comment> \<open>\<open>data.get(key) or d\<close>\<close>
  "get_or v d = (case v of None \<Rightarrow> d | Some x \<Rightarrow> str_or x d)"

definition flag_get :: "(string \<rightharpoonup> bool) \<Rightarrow> string \<Rightarrow> bool \<Rightarrow> bool" where
  \<comment> \<open>\<open>bool(flags.get(key, d))\<close>\<close>
  "flag_get flags key d = (case flags key of None \<Rightarrow> d | Some b \<Rightarrow> b)"

definition STYLE_CHOICES :: "string list" where
  "STYLE_CHOICES = [''markdown'', ''plain'', ''xml'']"

definition restore_state :: "filesystem \<Rightarrow> saved option \<Rightarrow> state \<Rightarrow> state" where
  \<comment> \<open>the cache is \<open>None\<close> when the file does not exist; \<open>FindString\<close> of the choice
      compares without regard to case\<close>
  "restore_state fs cache st =
     (case cache of
        None \<Rightarrow> st
      | Some data \<Rightarrow>
          (let last_dir = get_or (j_last_dir data) [];
               st = (if last_dir \<noteq> [] \<and> is_dir fs last_dir
                     then st\<lparr>dir_picker := last_dir, root_path := Some last_dir\<rparr> else st);
               style = get_or (j_style data) ''markdown'';
               st = (case find (\<lambda>c. lower c = lower style) STYLE_CHOICES of
                       None \<Rightarrow> st
                     | Some c \<Rightarrow> st\<lparr>style_choice := c\<rparr>);
               st = st\<lparr>output_name := get_or (j_output_name data) (output_name st)\<rparr>;
               st = st\<lparr>header_text := get_or (j_header_text data) []\<rparr>;
               instr = get_or (j_instruction_file_path data) [];
               st = (if instr \<noteq> [] then st\<lparr>instructions_picker := instr\<rparr> else st);
               flags = (case j_flags data of None \<Rightarrow> Map.empty | Some f \<Rightarrow> f);
               st = st\<lparr>cb_parsable := flag_get flags ''parsable'' False,
                       cb_compress := flag_get flags ''compress'' False,
                       cb_line_numbers := flag_get flags ''line_numbers'' False,
                       cb_no_file_summary := flag_get flags ''no_file_summary'' False,
                       cb_no_dir_structure := flag_get flags ''no_directory_structure'' False,
                       cb_no_files := flag_get flags ''no_files'' False,
                       cb_remove_comments := flag_get flags ''remove_comments'' False,
                       cb_remove_empty := flag_get flags ''remove_empty'' True,
                       cb_truncate_b64 := flag_get flags ''truncate_b64'' False,
                       cb_include_empty_dirs := flag_get flags ''include_empty_dirs'' False,
                       cb_no_git_sort := flag_get flags ''no_git_sort'' False,
                       cb_include_diffs := flag_get flags ''include_diffs'' False,
                       cb_include_logs := flag_get flags ''include_logs'' False\<rparr>;
               st = st\<lparr>ignore_patterns :=
                         (case j_ignore_patterns data of None \<Rightarrow> [] | Some ps \<Rightarrow> ps),
                       ignore_defaults_optout :=
                         (case j_ignore_defaults_optout data of None \<Rightarrow> {} | Some os \<Rightarrow> os),
                       excluded_files_set :=
                         (case j_excluded_files data of None \<Rightarrow> {} | Some xs \<Rightarrow> Path_of ` set xs)\<rparr>
           in if root_path st \<noteq> None then on_refresh fs st else st))"

definition init_state :: state where
  \<comment> \<open>the frame as its constructor leaves it, before the cache is read\<close>
  "init_state = update_cmd_preview
     \<lparr>root_path = None, all_files = [], visible_files = [], excluded_files_set = {},
      ignore_patterns = [], ignore_defaults_optout = {}, dir_picker = [],
      output_name = ''repomix_output.md'', style_choice = ''markdown'', filter_input = [],
      header_text = [], instructions_picker = [],
      cb_parsable = False, cb_compress = False, cb_line_numbers = False,
      cb_no_file_summary = False, cb_no_dir_structure = False, cb_no_files = False,
      cb_remove_comments = False, cb_remove_empty = True, cb_truncate_b64 = False,
      cb_include_empty_dirs = False, cb_no_git_sort = False, cb_include_diffs = False,
      cb_include_logs = False, files_list = [], excluded_files_box = [],
      ignore_patterns_box = [], cmd_preview = []\<rparr>"

section \<open>What the specification says, for comparison\<close>

definition spec_normalize :: "string \<Rightarrow> string" where
  \<comment> \<open>the normalizer as the specification words it: every backslash becomes a slash, one
      leading \<open>./\<close> goes, one trailing slash goes unless nothing would be left; an empty
      or whitespace-only text gives the empty text\<close>
  "spec_normalize raw =
     (if list_all isspace raw then []
      else (let s = map (\<lambda>c. if c = CHR 0x5C then CHR ''/'' else c) raw;
                s = (if take 2 s = ''./'' then drop 2 s else s)
            in if s \<noteq> [] \<and> last s = CHR ''/'' \<and> butlast s \<noteq> [] then butlast s else s))"

fun file_at :: "node \<Rightarrow> path \<Rightarrow> bool" where
  \<comment> \<open>the tree holds a file at this path, reached through directories only\<close>
  "file_at (Dir es) [n] = ((n, File) \<in> set es)"
| "file_at (Dir es) (n # m # p) = list_ex (\<lambda>(n', e). n' = n \<and> file_at e (m # p)) es"
| "file_at t p = False"

definition is_substring :: "string \<Rightarrow> string \<Rightarrow> bool" where
  \<comment> \<open>\<open>q\<close> stands in \<open>s\<close> at some offset\<close>
  "is_substring q s = list_ex (\<lambda>i. take (length q) (drop i s) = q) [0..<Suc (length s)]"

definition spec_visible :: "path list \<Rightarrow> string list \<Rightarrow> path set \<Rightarrow> string \<Rightarrow> path set" where
  \<comment> \<open>the visible set as the specification words it: the discovered files that no ignore
      pattern matches, that are not excluded, and, when the filter text is not empty, whose
      path holds that text, letter case aside\<close>
  "spec_visible files patterns excluded flt =
     {p \<in> set files. \<not> matches_patterns (path_str p) patterns \<and> p \<notin> excluded
        \<and> (flt = [] \<or> is_substring (lower flt) (lower (path_str p)))}"

definition flag_table :: "state \<Rightarrow> (bool \<times> string) list" where
  \<comment> \<open>the option flags with their switches, in the order of their declaration\<close>
  "flag_table st =
     [(cb_parsable st, ''--parsable-style''),
      (cb_compress st, ''--compress''),
      (cb_line_numbers st, ''--output-show-line-numbers''),
      (cb_no_file_summary st, ''--no-file-summary''),
      (cb_no_dir_structure st, ''--no-directory-structure''),
      (cb_no_files st, ''--no-files''),
      (cb_remove_comments st, ''--remove-comments''),
      (cb_remove_empty st, ''--remove-empty-lines''),
      (cb_truncate_b64 st, ''--truncate-base64''),
      (cb_include_empty_dirs st, ''--include-empty-directories''),
      (cb_no_git_sort st, ''--no-git-sort-by-changes''),
      (cb_include_diffs st, ''--include-diffs''),
      (cb_include_logs st, ''--include-logs'')]"

definition spec_synthesize ::
  "string \<Rightarrow> string \<Rightarrow> (bool \<times> string) list \<Rightarrow> string \<Rightarrow> string \<Rightarrow> string list \<Rightarrow> path set
     \<Rightarrow> string list" where
  \<comment> \<open>command synthesis as the specification words it, from the output name, the style,
      the flags, the header text, the instruction file path, the ignore patterns and the
      excluded files\<close>
  "spec_synthesize name style flags header instr patterns excluded =
     [''repomix'']
     @ (if name \<noteq> [] then [''-o'', name] else [])
     @ [''--style'', style]
     @ map snd (filter fst flags)
     @ (if header \<noteq> [] then [''--header-text'', header] else [])
     @ (if instr \<noteq> [] then [''--instruction-file-path'', instr] else [])
     @ (if patterns = [] \<and> excluded = {} then []
        else [''--ignore'', join '','' (patterns @ map path_str (sorted_list_of_set excluded))])"

section \<open>Normal forms used in the proofs\<close>

definition paths_of :: "(path \<times> string list \<times> string list) list \<Rightarrow> path set" where
  \<comment> \<open>the paths of the entries that a walk lists as files\<close>
  "paths_of w = {dp @ [name] | dp ds fs name. (dp, ds, fs) \<in> set w \<and> name \<in> set fs}"

definition ignore_arg :: "string list \<Rightarrow> path set \<Rightarrow> string list" where
  \<comment> \<open>the end of the command, as the code builds it from \<open>ignore_items\<close>\<close>
  "ignore_arg patterns excluded =
     (if [] @ (if patterns \<noteq> [] then patterns else [])
            @ (if excluded \<noteq> {} then map path_str (sorted_list_of_set excluded) else []) \<noteq> []
      then [''--ignore'',
            join '','' ([] @ (if patterns \<noteq> [] then patterns else [])
               @ (if excluded \<noteq> {} then map path_str (sorted_list_of_set excluded) else []))]
      else [])"

definition auto_added :: "filesystem \<Rightarrow> string \<Rightarrow> string set \<Rightarrow> string list \<Rightarrow> string list" where
  \<comment> \<open>the default names that one run of the automatic addition appends\<close>
  "auto_added fs root optout pats =
     filter (\<lambda>d. exists_under fs root d \<and> d \<notin> set pats \<and> d \<notin> optout)
       (sorted_list_of_set IGNORED_DIRS_DEFAULT)"

definition finish :: "state \<Rightarrow> state" where
  \<comment> \<open>the common end of a rescan and a reset, after discovery and automatic addition\<close>
  "finish st =
     (let st = st\<lparr>visible_files := all_files st\<rparr>;
          st = reload_files_list st;
          st = st\<lparr>ignore_patterns_box := ignore_patterns st\<rparr>
      in update_cmd_preview st)"

definition vis_of :: "path list \<Rightarrow> string list \<Rightarrow> path set \<Rightarrow> string \<Rightarrow> path list" where
  \<comment> \<open>the visible files as a function of the four values they are computed from\<close>
  "vis_of files pats excl flt =
     (let q = lower (strip (str_or flt []));
          base = filter (\<lambda>p. \<not> matches_patterns (path_str p) pats \<and> p \<notin> excl) files
      in if q \<noteq> [] then filter (\<lambda>p. contains (lower (path_str p)) q) base else base)"

definition box_of :: "string list \<Rightarrow> path set \<Rightarrow> string list" where
  \<comment> \<open>the lines of the list of exact exclusions\<close>
  "box_of pats excl =
     map path_str (filter (\<lambda>p. \<not> matches_patterns (path_str p) pats) (sorted_list_of_set excl))"

section \<open>Strings: helper facts\<close>

lemma replace_char_single: "replace_char old [new] s = map (\<lambda>c. if c = old then new else c) s"
  by (induction s) (auto simp: replace_char_def)

lemma replace_char_absent: "old \<notin> set s \<Longrightarrow> replace_char old new s = s"
  by (induction s) (auto simp: replace_char_def)

lemma startswith_iff: "startswith s pre \<longleftrightarrow> (\<exists>rest. s = pre @ rest)"
proof
  assume "startswith s pre"
  then have "s = pre @ drop (length pre) s"
    unfolding startswith_def by (metis append_take_drop_id)
  then show "\<exists>rest. s = pre @ rest" ..
next
  assume "\<exists>rest. s = pre @ rest"
  then show "startswith s pre" unfolding startswith_def by auto
qed

section \<open>Shell quoting\<close>

lemma quoted_longer:
  "length s < length ([q] @ concat (map (\<lambda>c. if c = q then [b, q] else [c]) s) @ [q])"
  by (induction s) auto

lemma shell_quote_form:
  "shell_quote s =
     (if s = [] \<or> (\<exists>c \<in> set s. c \<in> set SHELL_SPECIALS)
      then [CHR 0x22] @ concat (map (\<lambda>c. if c = CHR 0x22 then [CHR 0x5C, CHR 0x22] else [c]) s)
             @ [CHR 0x22]
      else s)"
proof -
  have "list_ex (\<lambda>ch. ch \<in> set s) SHELL_SPECIALS \<longleftrightarrow> (\<exists>c \<in> set s. c \<in> set SHELL_SPECIALS)"
    unfolding list_ex_iff by blast
  then show ?thesis
    unfolding shell_quote_def replace_char_def by simp
qed

lemma shell_quote_same:
  "shell_quote s = s \<longleftrightarrow> \<not> (s = [] \<or> (\<exists>c \<in> set s. c \<in> set SHELL_SPECIALS))"
proof (cases "s = [] \<or> (\<exists>c \<in> set s. c \<in> set SHELL_SPECIALS)")
  case True
  then have "length s < length (shell_quote s)"
    using quoted_longer [of s "CHR 0x22" "CHR 0x5C"] shell_quote_form [of s] by presburger
  then show ?thesis using True by auto
next
  case False
  then show ?thesis using shell_quote_form [of s] by presburger
qed

lemma set_SHELL_SPECIALS:
  "set SHELL_SPECIALS =
     {CHR 0x20, CHR 0x09, CHR 0x22, CHR 0x27, CHR ''*'', CHR ''$'', CHR ''&'', CHR ''('', CHR '')'',
      CHR ''['', CHR '']'', CHR ''{'', CHR ''}'', CHR '';'', CHR ''|'', CHR ''<'', CHR ''>'', CHR 0x60}"
  by (simp only: SHELL_SPECIALS_def list.set)

text \<open>
  Claim C9. The shell-quoting function leaves a token as it is exactly when the token is
  not empty and holds none of the characters space, tab, double quote, single quote,
  \<open>*$&()[]{};|<>\<close> and backtick; otherwise it wraps the token in double quotes, each
  double quote inside preceded by a backslash. The empty token becomes a pair of double
  quotes.
\<close>

theorem shell_quote_wraps:
  "(shell_quote s = s \<longleftrightarrow>
      \<not> (s = [] \<or> (\<exists>c \<in> set s. c \<in> {CHR 0x20, CHR 0x09, CHR 0x22, CHR 0x27, CHR ''*'', CHR ''$'',
            CHR ''&'', CHR ''('', CHR '')'', CHR ''['', CHR '']'', CHR ''{'', CHR ''}'', CHR '';'',
            CHR ''|'', CHR ''<'', CHR ''>'', CHR 0x60})))
   \<and> shell_quote s =
       (if s = [] \<or> (\<exists>c \<in> set s. c \<in> {CHR 0x20, CHR 0x09, CHR 0x22, CHR 0x27, CHR ''*'', CHR ''$'',
            CHR ''&'', CHR ''('', CHR '')'', CHR ''['', CHR '']'', CHR ''{'', CHR ''}'', CHR '';'',
            CHR ''|'', CHR ''<'', CHR ''>'', CHR 0x60})
        then [CHR 0x22] @ concat (map (\<lambda>c. if c = CHR 0x22 then [CHR 0x5C, CHR 0x22] else [c]) s)
               @ [CHR 0x22]
        else s)
   \<and> shell_quote [] = [CHR 0x22, CHR 0x22]"
  unfolding set_SHELL_SPECIALS [symmetric]
proof (intro conjI)
  show "shell_quote s = s \<longleftrightarrow> \<not> (s = [] \<or> (\<exists>c \<in> set s. c \<in> set SHELL_SPECIALS))"
    by (rule shell_quote_same)
  show "shell_quote s =
     (if s = [] \<or> (\<exists>c \<in> set s. c \<in> set SHELL_SPECIALS)
      then [CHR 0x22] @ concat (map (\<lambda>c. if c = CHR 0x22 then [CHR 0x5C, CHR 0x22] else [c]) s)
             @ [CHR 0x22]
      else s)"
    by (rule shell_quote_form)
  show "shell_quote [] = [CHR 0x22, CHR 0x22]"
    using shell_quote_form [of "[]"] by simp
qed

section \<open>The pattern matcher\<close>

lemma matches_patterns_iff:
  "matches_patterns path pats \<longleftrightarrow>
     (\<exists>raw \<in> set pats. normalize_glob raw \<noteq> [] \<and>
        (replace_char (CHR 0x5C) ''/'' path = normalize_glob raw
         \<or> fnmatch (replace_char (CHR 0x5C) ''/'' path) (normalize_glob raw)
         \<or> (CHR ''/'' \<notin> set (normalize_glob raw)
             \<and> startswith (replace_char (CHR 0x5C) ''/'' path) (normalize_glob raw @ ''/''))))"
  by (induction pats) (auto simp: Let_def)

lemmas glob_eval = normalize_glob_def strip_def isspace_def replace_char_def removeprefix_def
  startswith_def endswith_def fnmatch_def bracket_end_def

text \<open>
  Claim C1. On a path without backslashes the matcher answers true exactly when some
  pattern of the list, normalized and not empty, (a) equals the path, or (b) matches it
  as a shell pattern, or (c) holds no slash and the path starts with the pattern followed
  by a slash; on the empty list it answers false. The pattern \<open>node_modules\<close> matches
  \<open>node_modules/x/y.js\<close> and \<open>node_modules\<close>, and does not match
  \<open>my_node_modules/x\<close>.
\<close>

theorem matches_patterns_rules:
  assumes "CHR 0x5C \<notin> set path"
  shows "(matches_patterns path pats \<longleftrightarrow>
            (\<exists>raw \<in> set pats. normalize_glob raw \<noteq> [] \<and>
               (path = normalize_glob raw
                \<or> fnmatch path (normalize_glob raw)
                \<or> (CHR ''/'' \<notin> set (normalize_glob raw)
                    \<and> (\<exists>rest. path = normalize_glob raw @ ''/'' @ rest)))))
         \<and> \<not> matches_patterns path []
         \<and> matches_patterns ''node_modules/x/y.js'' [''node_modules'']
         \<and> matches_patterns ''node_modules'' [''node_modules'']
         \<and> \<not> matches_patterns ''my_node_modules/x'' [''node_modules'']"
proof (intro conjI)
  have ps: "replace_char (CHR 0x5C) ''/'' path = path"
    using assms by (rule replace_char_absent)
  show "matches_patterns path pats \<longleftrightarrow>
            (\<exists>raw \<in> set pats. normalize_glob raw \<noteq> [] \<and>
               (path = normalize_glob raw
                \<or> fnmatch path (normalize_glob raw)
                \<or> (CHR ''/'' \<notin> set (normalize_glob raw)
                    \<and> (\<exists>rest. path = normalize_glob raw @ ''/'' @ rest))))"
    unfolding matches_patterns_iff [of path pats] ps startswith_iff by simp
  show "\<not> matches_patterns path []" by simp
  show "matches_patterns ''node_modules/x/y.js'' [''node_modules'']"
    by (simp add: glob_eval)
  show "matches_patterns ''node_modules'' [''node_modules'']"
    by (simp add: glob_eval)
  show "\<not> matches_patterns ''my_node_modules/x'' [''node_modules'']"
    by (simp add: glob_eval)
qed

theorem matches_patterns_rules_witness:
  "matches_patterns ''src/a.py'' ['' '', ''docs'', ''src/'']"
proof -
  have h: "CHR 0x5C \<notin> set ''src/a.py''" by simp
  have n: "normalize_glob ''src/'' = ''src''" by (simp add: glob_eval)
  have "\<exists>raw \<in> set ['' '', ''docs'', ''src/'']. normalize_glob raw \<noteq> [] \<and>
               (''src/a.py'' = normalize_glob raw
                \<or> fnmatch ''src/a.py'' (normalize_glob raw)
                \<or> (CHR ''/'' \<notin> set (normalize_glob raw)
                    \<and> (\<exists>rest. ''src/a.py'' = normalize_glob raw @ ''/'' @ rest)))"
    using n by simp
  with matches_patterns_rules [OF h, of "['' '', ''docs'', ''src/'']"] show ?thesis by blast
qed

text \<open>
  Claim C2, as amended. The pattern \<open>*.png\<close> matches \<open>a/b/c.png\<close>; the pattern
  \<open>src/*.ts\<close> matches \<open>src/a.ts\<close> and matches \<open>src/sub/a.ts\<close> as well, since the
  star of a shell pattern runs across slashes.
\<close>

theorem glob_star_crosses_slash:
  "matches_patterns ''a/b/c.png'' [''*.png'']
   \<and> matches_patterns ''src/a.ts'' [''src/*.ts'']
   \<and> matches_patterns ''src/sub/a.ts'' [''src/*.ts'']"
  by (simp add: glob_eval)

text \<open>
  The claim as written says that \<open>src/*.ts\<close> does not match \<open>src/sub/a.ts\<close>; it does.
\<close>

theorem glob_star_counterexample:
  "matches_patterns ''src/sub/a.ts'' [''src/*.ts'']"
  by (simp add: glob_eval)

section \<open>The path normalizer\<close>

lemma strip_all_space: "list_all isspace raw \<Longrightarrow> strip raw = []"
proof -
  assume "list_all isspace raw"
  then have d: "dropWhile isspace raw = []" by (simp add: list_all_iff)
  show ?thesis unfolding strip_def d by simp
qed

lemma strip_not_all_space: "strip raw \<noteq> [] \<Longrightarrow> \<not> list_all isspace (strip raw)"
proof -
  assume ne: "strip raw \<noteq> []"
  let ?d = "dropWhile isspace (rev (dropWhile isspace raw))"
  from ne have "?d \<noteq> []" by (simp add: strip_def)
  then have "\<not> isspace (hd ?d)" by (rule hd_dropWhile)
  moreover have "hd ?d \<in> set (strip raw)"
    using \<open>?d \<noteq> []\<close> by (simp add: strip_def)
  ultimately show ?thesis by (auto simp: list_all_iff)
qed

lemma removeprefix_dot_slash:
  "removeprefix s ''./'' = (if take 2 s = ''./'' then drop 2 s else s)"
  by (simp add: removeprefix_def startswith_def numeral_2_eq_2)

lemma drop_trailing_slash:
  "(if length s > 1 \<and> endswith s ''/'' then butlast s else s) =
     (if s \<noteq> [] \<and> last s = CHR ''/'' \<and> butlast s \<noteq> [] then butlast s else s)"
proof (cases s rule: rev_cases)
  case Nil
  then show ?thesis by (simp add: endswith_def)
next
  case (snoc r c)
  then show ?thesis by (auto simp: endswith_def)
qed

lemma normalize_glob_spec: "normalize_glob raw = spec_normalize (strip raw)"
proof (cases "strip raw = []")
  case True
  then show ?thesis
    by (simp add: normalize_glob_def spec_normalize_def replace_char_def removeprefix_def
        startswith_def)
next
  case False
  then have "\<not> list_all isspace (strip raw)" by (rule strip_not_all_space)
  then show ?thesis
    unfolding normalize_glob_def spec_normalize_def Let_def
    by (simp only: replace_char_single removeprefix_dot_slash drop_trailing_slash if_False)
qed

text \<open>
  Claim C8, as amended. Normalization first strips the whitespace around the raw pattern;
  on the stripped text it replaces every backslash with a slash, removes one leading
  \<open>./\<close> and removes one trailing slash unless nothing would be left. An empty or
  whitespace-only input normalizes to the empty string, and the matcher passes over a
  pattern that normalizes to the empty string.
\<close>

theorem normalize_glob_strips_first:
  "normalize_glob raw = spec_normalize (strip raw)
   \<and> (list_all isspace raw \<longrightarrow> normalize_glob raw = [])
   \<and> (normalize_glob raw = [] \<longrightarrow>
        matches_patterns path (raw # pats) = matches_patterns path pats)"
proof (intro conjI impI)
  show "normalize_glob raw = spec_normalize (strip raw)" by (rule normalize_glob_spec)
  show "normalize_glob raw = []" if "list_all isspace raw"
    using that normalize_glob_spec [of raw] strip_all_space [of raw]
    by (simp add: spec_normalize_def)
  show "matches_patterns path (raw # pats) = matches_patterns path pats"
    if "normalize_glob raw = []"
    using that by (simp add: Let_def)
qed

theorem normalize_glob_strips_first_witness:
  "list_all isspace [CHR 0x20, CHR 0x09] \<and> normalize_glob [CHR 0x20, CHR 0x09] = []
   \<and> matches_patterns ''a.py'' [[CHR 0x20, CHR 0x09], ''a.py''] = matches_patterns ''a.py'' [''a.py'']
   \<and> normalize_glob '' ./x/ '' = spec_normalize ''./x/''"
proof -
  have sp: "list_all isspace [CHR 0x20, CHR 0x09]" by (simp add: isspace_def)
  have st: "strip '' ./x/ '' = ''./x/''" by (simp add: strip_def isspace_def)
  note t = normalize_glob_strips_first [of "[CHR 0x20, CHR 0x09]" "''a.py''" "[''a.py'']"]
  from t sp have n: "normalize_glob [CHR 0x20, CHR 0x09] = []" by blast
  from t n have m: "matches_patterns ''a.py'' [[CHR 0x20, CHR 0x09], ''a.py'']
      = matches_patterns ''a.py'' [''a.py'']" by blast
  from normalize_glob_strips_first [of "'' ./x/ ''", THEN conjunct1]
  have e: "normalize_glob '' ./x/ '' = spec_normalize ''./x/''" unfolding st .
  from sp n m e show ?thesis by (intro conjI)
qed

text \<open>
  The claim as written leaves the stripping out: on a pattern with a leading space the
  code and the three rewritings of the claim differ.
\<close>

theorem normalize_glob_counterexample:
  "normalize_glob '' a/'' = ''a'' \<and> spec_normalize '' a/'' = '' a''"
  by (simp add: glob_eval spec_normalize_def)

section \<open>The file discoverer\<close>

lemma endswith_iff: "endswith s suf \<longleftrightarrow> (\<exists>stem. s = stem @ suf)"
proof
  assume "endswith s suf"
  then have "s = take (length s - length suf) s @ suf"
    unfolding endswith_def by (metis append_take_drop_id)
  then show "\<exists>stem. s = stem @ suf" ..
next
  assume "\<exists>stem. s = stem @ suf"
  then show "endswith s suf" unfolding endswith_def by auto
qed

lemma paths_of_simps:
  "paths_of [] = {}"
  "paths_of ((dp, ds, fs) # w) = (\<lambda>name. dp @ [name]) ` set fs \<union> paths_of w"
  "paths_of (w @ w') = paths_of w \<union> paths_of w'"
  by (auto simp: paths_of_def)

lemma file_at_Nil: "\<not> file_at t []"
  by (cases t) auto

lemma file_at_Dir:
  "file_at (Dir es) p \<longleftrightarrow>
     (\<exists>n. p = [n] \<and> (n, File) \<in> set es) \<or> (\<exists>n e q. p = n # q \<and> (n, e) \<in> set es \<and> file_at e q)"
proof (cases p)
  case Nil
  then show ?thesis by simp
next
  case (Cons n q)
  show ?thesis
  proof (cases q)
    case Nil
    with Cons show ?thesis by auto
  next
    case (Cons m r)
    with \<open>p = n # q\<close> show ?thesis
      by (auto simp: list_ex_iff)
  qed
qed

lemma walk_paths:
  "paths_of (walk dp t) = {dp @ p | p. file_at t p}"
  "paths_of (walk_entries dp es) = {dp @ n # p | n e p. (n, e) \<in> set es \<and> file_at e p}"
proof (induction dp t and dp es rule: walk_walk_entries.induct)
  case (1 dp)
  then show ?case by (simp add: paths_of_simps)
next
  case (2 dp es)
  have "(\<lambda>name. dp @ [name]) ` set (map fst (filter (\<lambda>e. \<not> is_Dir_entry e) es))
        = {dp @ [n] | n. (n, File) \<in> set es}"
    apply (auto simp: image_iff)
    subgoal for n e by (cases e) auto
    subgoal for n by force
    done
  with 2 show ?case
    apply (simp add: paths_of_simps file_at_Dir)
    apply auto
    done
next
  case (3 dp)
  then show ?case by (simp add: paths_of_simps)
next
  case (4 dp n e es)
  then show ?case
    by (auto simp: paths_of_simps)
qed


lemma set_BINARY_SUFFIXES:
  "set BINARY_SUFFIXES = {''.png'', ''.jpg'', ''.jpeg'', ''.gif'', ''.webp'', ''.pdf'', ''.zip'',
                          ''.7z'', ''.tar'', ''.gz'', ''.bz2''}"
  by (simp only: BINARY_SUFFIXES_def list.set)

lemma set_discover_files:
  assumes "fs root = Some t"
  shows "set (discover_files fs root) =
           {p. file_at t p \<and> \<not> (\<exists>suf \<in> set BINARY_SUFFIXES. \<exists>stem. last p = stem @ suf)}"
proof -
  let ?ok = "\<lambda>name. \<not> list_ex (endswith name) BINARY_SUFFIXES"
  have "set (discover_files fs root) =
          {dp @ [name] | dp ds fs name. (dp, ds, fs) \<in> set (walk [] t) \<and> name \<in> set fs \<and> ?ok name}"
    using assms by (auto simp: discover_files_def)
  also have "\<dots> = {q \<in> paths_of (walk [] t). ?ok (last q)}"
    by (auto simp: paths_of_def) blast+
  also have "\<dots> = {p. file_at t p \<and> ?ok (last p)}"
    by (simp add: walk_paths)
  finally show ?thesis
    by (simp add: list_ex_iff endswith_iff)
qed

text \<open>
  Claim C10. The file discoverer drops a file exactly when its name ends, letter case
  included, with one of the extensions \<open>.png .jpg .jpeg .gif .webp .pdf .zip .7z .tar
  .gz .bz2\<close>: under any root, the discovered paths are the files of the tree whose
  name has no such ending. A name with the same extension in capitals, as
  \<open>photo.PNG\<close>, is kept.
\<close>

theorem discover_files_suffix_filter:
  assumes "fs root = Some t"
  shows "(p \<in> set (discover_files fs root) \<longleftrightarrow>
            file_at t p \<and>
            \<not> (\<exists>suf \<in> {''.png'', ''.jpg'', ''.jpeg'', ''.gif'', ''.webp'', ''.pdf'', ''.zip'',
                         ''.7z'', ''.tar'', ''.gz'', ''.bz2''}. \<exists>stem. last p = stem @ suf))
         \<and> discover_files
              (\<lambda>r. Some (Dir [(''photo.PNG'', File), (''photo.png'', File),
                               (''img'', Dir [(''b.jpg'', File), (''a.JPG'', File)])])) ''/r''
            = [[''img'', ''a.JPG''], [''photo.PNG'']]"
proof (intro conjI)
  show "p \<in> set (discover_files fs root) \<longleftrightarrow>
            file_at t p \<and>
            \<not> (\<exists>suf \<in> {''.png'', ''.jpg'', ''.jpeg'', ''.gif'', ''.webp'', ''.pdf'', ''.zip'',
                         ''.7z'', ''.tar'', ''.gz'', ''.bz2''}. \<exists>stem. last p = stem @ suf)"
    unfolding set_BINARY_SUFFIXES [symmetric] set_discover_files [of fs root t, OF assms] by simp
  show "discover_files
              (\<lambda>r. Some (Dir [(''photo.PNG'', File), (''photo.png'', File),
                               (''img'', Dir [(''b.jpg'', File), (''a.JPG'', File)])])) ''/r''
            = [[''img'', ''a.JPG''], [''photo.PNG'']]"
    by (simp add: discover_files_def BINARY_SUFFIXES_def endswith_def)
qed

theorem discover_files_suffix_filter_witness:
  "[''photo.PNG''] \<in> set (discover_files (\<lambda>r. Some (Dir [(''photo.PNG'', File), (''photo.png'', File)])) ''/r'')
   \<and> [''photo.png''] \<notin> set (discover_files (\<lambda>r. Some (Dir [(''photo.PNG'', File), (''photo.png'', File)])) ''/r'')"
proof -
  let ?t = "Dir [(''photo.PNG'', File), (''photo.png'', File)]"
  let ?fs = "\<lambda>r::string. Some ?t"
  have h: "?fs ''/r'' = Some ?t" by simp
  have e: "endswith ''photo.png'' ''.png''" by (simp add: endswith_def)
  then have "\<exists>stem. ''photo.png'' = stem @ ''.png''" by (simp only: endswith_iff)
  then show ?thesis
    using discover_files_suffix_filter [of ?fs "''/r''" ?t "[''photo.png'']", OF h]
          discover_files_suffix_filter [of ?fs "''/r''" ?t "[''photo.PNG'']", OF h]
    by (auto simp: endswith_iff [symmetric] endswith_def)
qed

section \<open>The visible set\<close>

lemma contains_iff: "contains s q \<longleftrightarrow> (\<exists>u v. s = u @ q @ v)"
proof (induction s)
  case Nil
  then show ?case by auto
next
  case (Cons c s)
  show ?case
  proof
    assume "contains (c # s) q"
    then consider "startswith (c # s) q" | "contains s q" by auto
    then show "\<exists>u v. c # s = u @ q @ v"
    proof cases
      case 1
      then obtain rest where "c # s = q @ rest" unfolding startswith_iff ..
      then have "c # s = [] @ q @ rest" by simp
      then show ?thesis by blast
    next
      case 2
      then obtain u v where "s = u @ q @ v" using Cons.IH by blast
      then have "c # s = (c # u) @ q @ v" by simp
      then show ?thesis by blast
    qed
  next
    assume "\<exists>u v. c # s = u @ q @ v"
    then obtain u v where uv: "c # s = u @ q @ v" by blast
    show "contains (c # s) q"
    proof (cases u)
      case Nil
      with uv have "startswith (c # s) q" unfolding startswith_iff by auto
      then show ?thesis by simp
    next
      case (Cons d u')
      with uv have "s = u' @ q @ v" by simp
      then have "contains s q" using Cons.IH by blast
      then show ?thesis by simp
    qed
  qed
qed

lemma is_substring_iff: "is_substring q s \<longleftrightarrow> (\<exists>u v. s = u @ q @ v)"
proof
  assume "is_substring q s"
  then obtain i where "take (length q) (drop i s) = q"
    unfolding is_substring_def list_ex_iff by blast
  then have "s = take i s @ q @ drop (length q) (drop i s)"
    by (metis append_take_drop_id)
  then show "\<exists>u v. s = u @ q @ v" by blast
next
  assume "\<exists>u v. s = u @ q @ v"
  then obtain u v where "s = u @ q @ v" by blast
  then have "length u < Suc (length s) \<and> take (length q) (drop (length u) s) = q" by simp
  then show "is_substring q s"
    unfolding is_substring_def list_ex_iff by (metis atLeast0LessThan lessThan_iff set_upt)
qed

lemma contains_is_substring: "contains s q = is_substring q s"
  by (simp add: contains_iff is_substring_iff)

lemma visible_reload:
  "visible_files (reload_files_list st) =
     filter (\<lambda>p. \<not> matches_patterns (path_str p) (ignore_patterns st)
                \<and> p \<notin> excluded_files_set st
                \<and> (strip (filter_input st) = []
                    \<or> is_substring (lower (strip (filter_input st))) (lower (path_str p))))
       (all_files st)"
  by (simp add: reload_files_list_def Let_def is_ignored_path_def str_or_def lower_def
      contains_is_substring cong: filter_cong)

text \<open>
  Claim C3, as amended. After every recomputation of the visible set, the visible set is
  the discovered files minus those that some ignore pattern matches, minus those in the
  exact-exclusion set, and further restricted, when the filter text stripped of the
  whitespace around it is not empty, to the paths that hold the stripped text, letter
  case aside. With an empty exclusion set and an empty filter this is the discovered
  files minus the pattern-matched ones.
\<close>

theorem visible_set_recomputed:
  "set (visible_files (reload_files_list st)) =
     spec_visible (all_files st) (ignore_patterns st) (excluded_files_set st)
       (strip (filter_input st))
   \<and> (excluded_files_set st = {} \<and> filter_input st = [] \<longrightarrow>
        set (visible_files (reload_files_list st)) =
          set (all_files st) - {f. matches_patterns (path_str f) (ignore_patterns st)})"
  by (auto simp: visible_reload spec_visible_def strip_def)

text \<open>
  The claim as written takes the filter text as it stands: a filter of one space is not
  empty and no path holds it, yet the code, which strips the text first, filters nothing.
\<close>

theorem visible_set_counterexample:
  "visible_files (reload_files_list (init_state\<lparr>all_files := [[''a.py'']], filter_input := '' ''\<rparr>))
     = [[''a.py'']]
   \<and> spec_visible [[''a.py'']] [] {} '' '' = {}"
  by (simp add: visible_reload spec_visible_def init_state_def update_cmd_preview_def
      strip_def isspace_def path_str_def is_substring_def lower_def lower_char_def)

theorem visible_set_recomputed_witness:
  "set (visible_files (reload_files_list
         (init_state\<lparr>all_files := [[''.git'', ''config''], [''a.py'']], ignore_patterns := [''.git'']\<rparr>)))
     = set [[''.git'', ''config''], [''a.py'']] - {f. matches_patterns (path_str f) [''.git'']}
   \<and> visible_files (reload_files_list
         (init_state\<lparr>all_files := [[''.git'', ''config''], [''a.py'']], ignore_patterns := [''.git'']\<rparr>))
     = [[''a.py'']]"
proof -
  let ?st = "init_state\<lparr>all_files := [[''.git'', ''config''], [''a.py'']], ignore_patterns := [''.git'']\<rparr>"
  have e: "excluded_files_set ?st = {} \<and> filter_input ?st = []"
    by (simp add: init_state_def update_cmd_preview_def)
  have f: "all_files ?st = [[''.git'', ''config''], [''a.py'']]" "ignore_patterns ?st = [''.git'']"
    by simp_all
  from visible_set_recomputed [of ?st] e
  have "set (visible_files (reload_files_list ?st)) =
          set (all_files ?st) - {f. matches_patterns (path_str f) (ignore_patterns ?st)}"
    by blast
  then have s: "set (visible_files (reload_files_list ?st)) =
          set [[''.git'', ''config''], [''a.py'']] - {f. matches_patterns (path_str f) [''.git'']}"
    unfolding f .
  have v: "visible_files (reload_files_list ?st) = [[''a.py'']]"
    by (simp add: visible_reload init_state_def update_cmd_preview_def path_str_def glob_eval)
  from s v show ?thesis by (intro conjI)
qed

section \<open>Command synthesis\<close>

lemma add_flag_append: "add_flag cb flag cmd = cmd @ (if cb then [flag] else [])"
  by (simp add: add_flag_def)

lemma if_append_right: "(if c then xs @ ys else xs) = xs @ (if c then ys else [])"
  by simp

lemma flag_tokens_Cons:
  "map snd (filter fst ((b, f) # rest)) = (if b then [f] else []) @ map snd (filter fst rest)"
  by simp

lemma flag_tokens_Nil: "map snd (filter fst []) = ([] :: string list)"
  by simp

lemma str_or_nonempty: "d \<noteq> [] \<Longrightarrow> str_or x d \<noteq> []"
  by (simp add: str_or_def)

lemma str_or_Nil: "str_or x [] = x"
  by (simp add: str_or_def)

lemma ignore_arg_finite:
  assumes "finite excluded"
  shows "ignore_arg patterns excluded =
         (if patterns = [] \<and> excluded = {} then []
          else [''--ignore'', join '','' (patterns @ map path_str (sorted_list_of_set excluded))])"
  using assms by (auto simp: ignore_arg_def)

lemma build_command_raw:
  "build_command st =
     [''repomix'']
     @ (if strip (str_or (output_name st) ''repomix_output.md'') \<noteq> []
        then [''-o'', strip (str_or (output_name st) ''repomix_output.md'')] else [])
     @ [''--style'', str_or (style_choice st) ''markdown'']
     @ map snd (filter fst (flag_table st))
     @ (if strip (header_text st) \<noteq> [] then [''--header-text'', strip (header_text st)] else [])
     @ (if strip (instructions_picker st) \<noteq> []
        then [''--instruction-file-path'', strip (instructions_picker st)] else [])
     @ ignore_arg (ignore_patterns st) (excluded_files_set st)"
proof -
  have style: "str_or (style_choice st) ''markdown'' \<noteq> []"
    by (rule str_or_nonempty) simp
  show ?thesis
    unfolding build_command_def flag_table_def ignore_arg_def Let_def
    apply (simp only: add_flag_append if_append_right str_or_Nil style not_False_eq_True if_True)
    apply (simp only: flag_tokens_Cons flag_tokens_Nil append_assoc append_Nil2)
    done
qed

lemma build_command_frame:
  "build_command (st\<lparr>visible_files := v\<rparr>) = build_command st"
  "build_command (st\<lparr>files_list := fl\<rparr>) = build_command st"
  "build_command (st\<lparr>excluded_files_box := eb\<rparr>) = build_command st"
  "build_command (st\<lparr>ignore_patterns_box := ib\<rparr>) = build_command st"
  "build_command (st\<lparr>cmd_preview := cp\<rparr>) = build_command st"
  "build_command (st\<lparr>all_files := af\<rparr>) = build_command st"
  by (simp_all add: build_command_raw flag_table_def)

lemma build_command_form:
  assumes "finite (excluded_files_set st)"
  shows "build_command st =
     spec_synthesize (strip (str_or (output_name st) ''repomix_output.md''))
       (str_or (style_choice st) ''markdown'') (flag_table st)
       (strip (header_text st)) (strip (instructions_picker st))
       (ignore_patterns st) (excluded_files_set st)"
  unfolding build_command_raw spec_synthesize_def ignore_arg_finite [OF assms] ..

text \<open>
  Claim C4, as amended. For every configuration state, command synthesis produces the
  argument vector in the fixed order: the program name; \<open>-o\<close> with the output name
  stripped of the whitespace around it, an empty name field standing for
  \<open>repomix_output.md\<close>, if the stripped name is not empty; \<open>--style\<close> with the
  selected style, \<open>markdown\<close> when none is selected; one token per true flag in the
  order of declaration; \<open>--header-text\<close> with the stripped text if that is not empty;
  \<open>--instruction-file-path\<close> with the stripped path if that is not empty; and
  \<open>--ignore\<close> with the comma-joined ignore patterns followed by the sorted excluded
  paths, left out when both are empty. Default flags, style markdown, output name
  \<open>repomix_output.md\<close> and the one ignore pattern \<open>.git\<close> give
  \<open>repomix -o repomix_output.md --style markdown --remove-empty-lines --ignore .git\<close>.
\<close>

theorem build_command_order:
  assumes "finite (excluded_files_set st)"
  shows "build_command st =
           spec_synthesize (strip (str_or (output_name st) ''repomix_output.md''))
             (str_or (style_choice st) ''markdown'') (flag_table st)
             (strip (header_text st)) (strip (instructions_picker st))
             (ignore_patterns st) (excluded_files_set st)
         \<and> build_command (init_state\<lparr>ignore_patterns := [''.git'']\<rparr>) =
             [''repomix'', ''-o'', ''repomix_output.md'', ''--style'', ''markdown'',
              ''--remove-empty-lines'', ''--ignore'', ''.git'']"
proof
  show "build_command st =
           spec_synthesize (strip (str_or (output_name st) ''repomix_output.md''))
             (str_or (style_choice st) ''markdown'') (flag_table st)
             (strip (header_text st)) (strip (instructions_picker st))
             (ignore_patterns st) (excluded_files_set st)"
    using assms by (rule build_command_form)
  show "build_command (init_state\<lparr>ignore_patterns := [''.git'']\<rparr>) =
             [''repomix'', ''-o'', ''repomix_output.md'', ''--style'', ''markdown'',
              ''--remove-empty-lines'', ''--ignore'', ''.git'']"
    by (simp add: build_command_def add_flag_def init_state_def update_cmd_preview_def
        strip_def isspace_def str_or_def)
qed

theorem build_command_order_witness:
  "build_command (init_state\<lparr>output_name := '' out.md '', cb_compress := True,
       ignore_patterns := [''.git''], excluded_files_set := {[''b'', ''x.py''], [''a.py'']}\<rparr>) =
     [''repomix'', ''-o'', ''out.md'', ''--style'', ''markdown'', ''--compress'',
      ''--remove-empty-lines'', ''--ignore'', ''.git,a.py,b/x.py'']"
proof -
  let ?st = "init_state\<lparr>output_name := '' out.md '', cb_compress := True,
       ignore_patterns := [''.git''], excluded_files_set := {[''b'', ''x.py''], [''a.py'']}\<rparr>"
  have fin: "finite (excluded_files_set ?st)" by simp
  have srt: "sorted_list_of_set {[''b'', ''x.py''], [''a.py'']} = [[''a.py''], [''b'', ''x.py'']]"
    by simp
  from build_command_order [OF fin]
  have "build_command ?st =
           spec_synthesize (strip (str_or (output_name ?st) ''repomix_output.md''))
             (str_or (style_choice ?st) ''markdown'') (flag_table ?st)
             (strip (header_text ?st)) (strip (instructions_picker ?st))
             (ignore_patterns ?st) (excluded_files_set ?st)" ..
  also have "\<dots> = [''repomix'', ''-o'', ''out.md'', ''--style'', ''markdown'', ''--compress'',
      ''--remove-empty-lines'', ''--ignore'', ''.git,a.py,b/x.py'']"
    by (simp add: spec_synthesize_def flag_table_def init_state_def update_cmd_preview_def
        strip_def isspace_def str_or_def path_str_def srt)
  finally show ?thesis .
qed

text \<open>
  The claim as written puts \<open>-o\<close> into the command when the name is not empty and
  leaves it out otherwise. With an empty name field the code still emits \<open>-o\<close>, with
  the default name.
\<close>

theorem build_command_counterexample:
  "build_command (init_state\<lparr>output_name := []\<rparr>) =
     [''repomix'', ''-o'', ''repomix_output.md'', ''--style'', ''markdown'', ''--remove-empty-lines'']
   \<and> spec_synthesize [] ''markdown'' (flag_table init_state) [] [] [] {} =
     [''repomix'', ''--style'', ''markdown'', ''--remove-empty-lines'']"
  by (simp add: build_command_def add_flag_def init_state_def update_cmd_preview_def
        strip_def isspace_def str_or_def spec_synthesize_def flag_table_def)

section \<open>Rescans and the default ignores\<close>

lemma finite_IGNORED_DIRS_DEFAULT: "finite IGNORED_DIRS_DEFAULT"
  by (simp add: IGNORED_DIRS_DEFAULT_def)

lemma foldl_ensure_step:
  "distinct ds \<Longrightarrow>
   foldl (ensure_step fs root optout) (pats, set pats) ds =
     (pats @ filter (\<lambda>d. exists_under fs root d \<and> d \<notin> set pats \<and> d \<notin> optout) ds,
      set pats \<union> set (filter (\<lambda>d. exists_under fs root d \<and> d \<notin> set pats \<and> d \<notin> optout) ds))"
proof (induction ds arbitrary: pats)
  case Nil
  then show ?case by simp
next
  case (Cons d ds)
  then have d: "d \<notin> set ds" and dist: "distinct ds" by simp_all
  show ?case
  proof (cases "exists_under fs root d \<and> d \<notin> set pats \<and> d \<notin> optout")
    case True
    have same: "filter (\<lambda>x. exists_under fs root x \<and> x \<notin> set (pats @ [d]) \<and> x \<notin> optout) ds
              = filter (\<lambda>x. exists_under fs root x \<and> x \<notin> set pats \<and> x \<notin> optout) ds"
      using d by (intro filter_cong) auto
    have "ensure_step fs root optout (pats, set pats) d = (pats @ [d], set (pats @ [d]))"
      using True by (simp add: ensure_step_def)
    then show ?thesis
      using Cons.IH [OF dist, of "pats @ [d]"] True same d by auto
  next
    case False
    then have "ensure_step fs root optout (pats, set pats) d = (pats, set pats)"
      by (auto simp: ensure_step_def)
    then show ?thesis
      using Cons.IH [OF dist, of pats] False by simp
  qed
qed

lemma ensure_patterns:
  "fst (foldl (ensure_step fs root optout) (pats, set pats) (sorted_list_of_set IGNORED_DIRS_DEFAULT))
     = pats @ auto_added fs root optout pats"
  by (simp add: foldl_ensure_step auto_added_def)

lemma auto_added_again: "auto_added fs root optout (pats @ auto_added fs root optout pats) = []"
  by (auto simp: auto_added_def filter_empty_conv)

lemma auto_added_props:
  "distinct (auto_added fs root optout pats)"
  "set (auto_added fs root optout pats) =
     {d \<in> IGNORED_DIRS_DEFAULT. exists_under fs root d \<and> d \<notin> set pats \<and> d \<notin> optout}"
  by (auto simp: auto_added_def finite_IGNORED_DIRS_DEFAULT)

lemma ensure_closed:
  "root_path st = Some r \<Longrightarrow>
   ensure_default_ignores_exist fs st =
     st\<lparr>ignore_patterns :=
          ignore_patterns st @ auto_added fs r (ignore_defaults_optout st) (ignore_patterns st)\<rparr>"
  by (simp add: ensure_default_ignores_exist_def ensure_patterns)

lemma reload_form:
  "reload_files_list st =
     st\<lparr>visible_files :=
          vis_of (all_files st) (ignore_patterns st) (excluded_files_set st) (filter_input st),
        files_list :=
          map path_str
            (vis_of (all_files st) (ignore_patterns st) (excluded_files_set st) (filter_input st)),
        excluded_files_box := box_of (ignore_patterns st) (excluded_files_set st)\<rparr>"
  by (simp add: reload_files_list_def vis_of_def box_of_def is_ignored_path_def Let_def)

lemma finish_form:
  "finish st =
     st\<lparr>visible_files :=
          vis_of (all_files st) (ignore_patterns st) (excluded_files_set st) (filter_input st),
        files_list :=
          map path_str
            (vis_of (all_files st) (ignore_patterns st) (excluded_files_set st) (filter_input st)),
        excluded_files_box := box_of (ignore_patterns st) (excluded_files_set st),
        ignore_patterns_box := ignore_patterns st,
        cmd_preview := join '' '' (map shell_quote (build_command st))\<rparr>"
  by (simp add: finish_def Let_def reload_form update_cmd_preview_def build_command_frame)

lemma finish_fields:
  "root_path (finish st) = root_path st"
  "all_files (finish st) = all_files st"
  "ignore_patterns (finish st) = ignore_patterns st"
  "ignore_defaults_optout (finish st) = ignore_defaults_optout st"
  "excluded_files_set (finish st) = excluded_files_set st"
  by (simp_all add: finish_form)

lemma finish_idem: "finish (finish st) = finish st"
  by (simp add: finish_form build_command_frame)

lemma rescan_and_update_form:
  "root_path st = Some r \<Longrightarrow>
   rescan_and_update fs st =
     finish (st\<lparr>all_files := discover_files fs r,
                ignore_patterns :=
                  ignore_patterns st @ auto_added fs r (ignore_defaults_optout st) (ignore_patterns st)\<rparr>)"
  by (simp add: rescan_and_update_def finish_def ensure_closed Let_def)

lemma rescan_and_update_idem:
  "rescan_and_update fs (rescan_and_update fs st) = rescan_and_update fs st"
proof (cases "root_path st")
  case None
  then show ?thesis by (simp add: rescan_and_update_def)
next
  case (Some r)
  let ?b = "st\<lparr>all_files := discover_files fs r,
                ignore_patterns :=
                  ignore_patterns st @ auto_added fs r (ignore_defaults_optout st) (ignore_patterns st)\<rparr>"
  have 1: "rescan_and_update fs st = finish ?b" using Some by (rule rescan_and_update_form)
  have r: "root_path (finish ?b) = Some r" using Some by (simp add: finish_fields)
  have "rescan_and_update fs (finish ?b) =
          finish ((finish ?b)\<lparr>all_files := discover_files fs r,
                ignore_patterns := ignore_patterns (finish ?b)
                  @ auto_added fs r (ignore_defaults_optout (finish ?b)) (ignore_patterns (finish ?b))\<rparr>)"
    using r by (rule rescan_and_update_form)
  also have "\<dots> = finish ((finish ?b)\<lparr>all_files := all_files (finish ?b),
                ignore_patterns := ignore_patterns (finish ?b)\<rparr>)"
    by (simp add: finish_fields auto_added_again)
  also have "\<dots> = finish (finish ?b)" by simp
  also have "\<dots> = finish ?b" by (rule finish_idem)
  finally show ?thesis unfolding 1 .
qed


lemma on_refresh_form:
  "root_path st = Some r \<Longrightarrow>
   on_refresh fs st =
     finish (st\<lparr>all_files := discover_files fs r, excluded_files_set := {},
                ignore_patterns :=
                  ignore_patterns st @ auto_added fs r (ignore_defaults_optout st) (ignore_patterns st)\<rparr>)"
  by (simp add: on_refresh_def finish_def ensure_closed Let_def)

lemma on_refresh_idem: "on_refresh fs (on_refresh fs st) = on_refresh fs st"
proof (cases "root_path st")
  case None
  then show ?thesis by (simp add: on_refresh_def)
next
  case (Some r)
  let ?b = "st\<lparr>all_files := discover_files fs r, excluded_files_set := {},
                ignore_patterns :=
                  ignore_patterns st @ auto_added fs r (ignore_defaults_optout st) (ignore_patterns st)\<rparr>"
  have 1: "on_refresh fs st = finish ?b" using Some by (rule on_refresh_form)
  have r: "root_path (finish ?b) = Some r" using Some by (simp add: finish_fields)
  have "on_refresh fs (finish ?b) =
          finish ((finish ?b)\<lparr>all_files := discover_files fs r, excluded_files_set := {},
                ignore_patterns := ignore_patterns (finish ?b)
                  @ auto_added fs r (ignore_defaults_optout (finish ?b)) (ignore_patterns (finish ?b))\<rparr>)"
    using r by (rule on_refresh_form)
  also have "\<dots> = finish ((finish ?b)\<lparr>all_files := all_files (finish ?b),
                excluded_files_set := excluded_files_set (finish ?b),
                ignore_patterns := ignore_patterns (finish ?b)\<rparr>)"
    by (simp add: finish_fields auto_added_again)
  also have "\<dots> = finish (finish ?b)" by simp
  also have "\<dots> = finish ?b" by (rule finish_idem)
  finally show ?thesis unfolding 1 .
qed


lemma sorted_IGNORED_DIRS_DEFAULT:
  "sorted_list_of_set IGNORED_DIRS_DEFAULT =
     [''.git'', ''.gitignore'', ''.hg'', ''.idea'', ''.svn'', ''.venv'', ''.vscode'',
      ''__pycache__'', ''build'', ''dist'', ''node_modules'', ''uv.lock'']"
  unfolding IGNORED_DIRS_DEFAULT_def by code_simp

text \<open>
  Claim C7. Running a rescan twice in a row from the same state, over the same file
  system, gives the same visible files and the same ignore-pattern list as running it
  once, for the rescan after a change and for the reset alike. The automatic addition
  appends, without repetition, only default names that are not yet in the pattern list,
  are not opted out and exist under the root.
\<close>

theorem rescan_twice:
  "visible_files (rescan_and_update fs (rescan_and_update fs st))
     = visible_files (rescan_and_update fs st)
   \<and> ignore_patterns (rescan_and_update fs (rescan_and_update fs st))
     = ignore_patterns (rescan_and_update fs st)
   \<and> visible_files (on_refresh fs (on_refresh fs st)) = visible_files (on_refresh fs st)
   \<and> ignore_patterns (on_refresh fs (on_refresh fs st)) = ignore_patterns (on_refresh fs st)
   \<and> (\<exists>added. ignore_patterns (ensure_default_ignores_exist fs st) = ignore_patterns st @ added
         \<and> distinct added
         \<and> set added \<inter> set (ignore_patterns st) = {}
         \<and> set added \<subseteq> IGNORED_DIRS_DEFAULT - ignore_defaults_optout st
         \<and> set added \<subseteq> {d. \<exists>root. root_path st = Some root \<and> exists_under fs root d})"
proof (intro conjI)
  show "\<exists>added. ignore_patterns (ensure_default_ignores_exist fs st) = ignore_patterns st @ added
         \<and> distinct added
         \<and> set added \<inter> set (ignore_patterns st) = {}
         \<and> set added \<subseteq> IGNORED_DIRS_DEFAULT - ignore_defaults_optout st
         \<and> set added \<subseteq> {d. \<exists>root. root_path st = Some root \<and> exists_under fs root d}"
  proof (cases "root_path st")
    case None
    then have "ignore_patterns (ensure_default_ignores_exist fs st) = ignore_patterns st @ []"
      by (simp add: ensure_default_ignores_exist_def)
    then show ?thesis by fastforce
  next
    case (Some r)
    let ?a = "auto_added fs r (ignore_defaults_optout st) (ignore_patterns st)"
    have "ignore_patterns (ensure_default_ignores_exist fs st) = ignore_patterns st @ ?a"
      using Some by (simp add: ensure_closed)
    moreover have "distinct ?a" by (rule auto_added_props)
    moreover have "set ?a \<inter> set (ignore_patterns st) = {}"
      by (auto simp: auto_added_props)
    moreover have "set ?a \<subseteq> IGNORED_DIRS_DEFAULT - ignore_defaults_optout st"
      by (auto simp: auto_added_props)
    moreover have "set ?a \<subseteq> {d. \<exists>root. root_path st = Some root \<and> exists_under fs root d}"
      using Some by (auto simp: auto_added_props)
    ultimately show ?thesis by blast
  qed
qed (simp_all only: rescan_and_update_idem on_refresh_idem)

theorem rescan_twice_witness:
  "ignore_patterns
     (rescan_and_update
        (\<lambda>r. Some (Dir [(''a.py'', File), (''b.png'', File), (''.git'', Dir [(''config'', File)])]))
        (rescan_and_update
           (\<lambda>r. Some (Dir [(''a.py'', File), (''b.png'', File), (''.git'', Dir [(''config'', File)])]))
           (init_state\<lparr>root_path := Some ''/r''\<rparr>)))
     = [''.git'']
   \<and> visible_files
     (rescan_and_update
        (\<lambda>r. Some (Dir [(''a.py'', File), (''b.png'', File), (''.git'', Dir [(''config'', File)])]))
        (rescan_and_update
           (\<lambda>r. Some (Dir [(''a.py'', File), (''b.png'', File), (''.git'', Dir [(''config'', File)])]))
           (init_state\<lparr>root_path := Some ''/r''\<rparr>)))
     = [[''a.py'']]"
proof -
  let ?fs = "\<lambda>r::string. Some (Dir [(''a.py'', File), (''b.png'', File), (''.git'', Dir [(''config'', File)])])"
  let ?st = "init_state\<lparr>root_path := Some ''/r''\<rparr>"
  have d: "discover_files ?fs ''/r'' = [[''.git'', ''config''], [''a.py'']]"
    by (simp add: discover_files_def BINARY_SUFFIXES_def endswith_def)
  have a: "auto_added ?fs ''/r'' {} [] = [''.git'']"
    by (simp add: auto_added_def sorted_IGNORED_DIRS_DEFAULT exists_under_def)
  have r: "root_path ?st = Some ''/r''" by simp
  have i: "ignore_patterns init_state = []" "ignore_defaults_optout init_state = {}"
    "excluded_files_set init_state = {}" "filter_input init_state = []"
    by (simp_all add: init_state_def update_cmd_preview_def)
  have p: "ignore_patterns (rescan_and_update ?fs ?st) = [''.git'']"
    unfolding rescan_and_update_form [OF r] finish_fields by (simp add: i a)
  have "visible_files (rescan_and_update ?fs ?st) =
          vis_of [[''.git'', ''config''], [''a.py'']] [''.git''] {} []"
    unfolding rescan_and_update_form [OF r] finish_form by (simp add: i a d)
  also have "\<dots> = [[''a.py'']]"
    by (simp add: vis_of_def path_str_def glob_eval str_or_def lower_def)
  finally have v: "visible_files (rescan_and_update ?fs ?st) = [[''a.py'']]" .
  from rescan_twice [of ?fs ?st] p v show ?thesis by simp
qed

section \<open>Removing ignore patterns: what changes\<close>

lemma index_all_in_range:
  "\<forall>i \<in> set sel. i < length xs \<Longrightarrow> index_all xs sel = Inr (map ((!) xs) sel)"
  by (induction sel) auto

lemma nths_cong_below:
  "(\<And>j. j < length l \<Longrightarrow> j \<in> A \<longleftrightarrow> j \<in> B) \<Longrightarrow> nths l A = nths l B"
  unfolding nths_def
  by (rule arg_cong [where f = "map fst"], rule filter_cong) (auto simp: set_zip)

lemma nths_delete:
  assumes "i < length xs" and "\<forall>j \<in> S. j < i"
  shows "nths (take i xs @ drop (Suc i) xs) (- S) = nths xs (- (S \<union> {i}))"
proof -
  have all_right: "nths l {j. j + k \<in> - S} = l" if "i \<le> k" for l :: "'a list" and k
    using that assms(2) by (intro nths_all) auto
  have left: "nths (take i xs) (- (S \<union> {i})) = nths (take i xs) (- S)"
    by (rule nths_cong_below) auto
  have "xs = take i xs @ xs ! i # drop (Suc i) xs"
    using assms(1) by (rule id_take_nth_drop)
  then have "nths xs (- (S \<union> {i})) =
      nths (take i xs @ xs ! i # drop (Suc i) xs) (- (S \<union> {i}))" by simp
  also have "\<dots> = nths (take i xs) (- (S \<union> {i}))
      @ nths (xs ! i # drop (Suc i) xs) {j. j + i \<in> - (S \<union> {i})}"
    using assms(1) by (simp add: nths_append min_absorb2)
  also have "nths (xs ! i # drop (Suc i) xs) {j. j + i \<in> - (S \<union> {i})}
      = nths (drop (Suc i) xs) {j. j + Suc i \<in> - (S \<union> {i})}"
    by (simp add: nths_Cons)
  also have "{j. j + Suc i \<in> - (S \<union> {i})} = {j. j + Suc i \<in> - S}" by auto
  also have "nths (drop (Suc i) xs) {j. j + Suc i \<in> - S} = drop (Suc i) xs"
    by (rule all_right) simp
  finally have rhs: "nths xs (- (S \<union> {i})) = nths (take i xs) (- S) @ drop (Suc i) xs"
    unfolding left .
  have "nths (take i xs @ drop (Suc i) xs) (- S) =
      nths (take i xs) (- S) @ nths (drop (Suc i) xs) {j. j + i \<in> - S}"
    using assms(1) by (simp add: nths_append min_absorb2)
  also have "nths (drop (Suc i) xs) {j. j + i \<in> - S} = drop (Suc i) xs"
    by (rule all_right) simp
  finally show ?thesis unfolding rhs .
qed

lemma pop_all_descending:
  "sorted_wrt (<) sel \<Longrightarrow> \<forall>i \<in> set sel. i < length xs \<Longrightarrow>
   pop_all (rev sel) xs = Inr (nths xs (- set sel))"
proof (induction sel arbitrary: xs rule: rev_induct)
  case Nil
  then show ?case by (simp add: nths_all)
next
  case (snoc i s)
  then have i: "i < length xs" and below: "\<forall>j \<in> set s. j < i" and srt: "sorted_wrt (<) s"
    by (auto simp: sorted_wrt_append)
  let ?xs = "take i xs @ drop (Suc i) xs"
  have "\<forall>j \<in> set s. j < length ?xs" using i below by auto
  from snoc.IH [OF srt this]
  have "pop_all (rev s) ?xs = Inr (nths ?xs (- set s))" .
  also have "nths ?xs (- set s) = nths xs (- (set s \<union> {i}))"
    using i below by (rule nths_delete)
  finally show ?case using i by simp
qed

lemma foldl_optout:
  "foldl (\<lambda>optout rp. if rp \<in> D then insert rp optout else optout) optout removed
     = optout \<union> (set removed \<inter> D)"
  by (induction removed arbitrary: optout) auto


lemma rescan_and_update_fields:
  "ignore_defaults_optout (rescan_and_update fs st) = ignore_defaults_optout st"
  "excluded_files_set (rescan_and_update fs st) = excluded_files_set st"
  "ignore_patterns (rescan_and_update fs st) =
     ignore_patterns st @
       (case root_path st of None \<Rightarrow> []
        | Some r \<Rightarrow> auto_added fs r (ignore_defaults_optout st) (ignore_patterns st))"
proof -
  show "ignore_defaults_optout (rescan_and_update fs st) = ignore_defaults_optout st"
    by (cases "root_path st")
       (simp_all add: rescan_and_update_form finish_fields, simp add: rescan_and_update_def)
  show "excluded_files_set (rescan_and_update fs st) = excluded_files_set st"
    by (cases "root_path st")
       (simp_all add: rescan_and_update_form finish_fields, simp add: rescan_and_update_def)
  show "ignore_patterns (rescan_and_update fs st) =
     ignore_patterns st @
       (case root_path st of None \<Rightarrow> []
        | Some r \<Rightarrow> auto_added fs r (ignore_defaults_optout st) (ignore_patterns st))"
    by (cases "root_path st")
       (simp_all add: rescan_and_update_form finish_fields, simp add: rescan_and_update_def)
qed

lemma on_remove_ignore_patterns:
  assumes "sorted_wrt (<) sel" and "\<forall>i \<in> set sel. i < length (ignore_patterns st)"
  shows "map_sum id ignore_patterns (on_remove_ignore fs sel st) =
           Inr (nths (ignore_patterns st) (- set sel) @
                (case root_path st of
                   None \<Rightarrow> []
                 | Some r \<Rightarrow>
                     auto_added fs r
                       (ignore_defaults_optout st
                          \<union> (set (map ((!) (ignore_patterns st)) sel) \<inter> IGNORED_DIRS_DEFAULT))
                       (nths (ignore_patterns st) (- set sel))))"
proof -
  let ?pats = "ignore_patterns st"
  let ?removed = "map ((!) ?pats) sel"
  let ?remaining = "nths ?pats (- set sel)"
  let ?optout = "ignore_defaults_optout st \<union> (set ?removed \<inter> IGNORED_DIRS_DEFAULT)"
  let ?st1 = "st\<lparr>ignore_patterns := ?remaining,
                  ignore_patterns_box := fold delete_at (rev sel) (ignore_patterns_box st)\<rparr>"
  let ?st2 = "?st1\<lparr>excluded_files_set := excluded_files_set ?st1
                 - {p \<in> excluded_files_set ?st1.
                      matches_any p ?removed \<and> \<not> matches_any p ?remaining}\<rparr>"
  let ?core = "?st2\<lparr>ignore_defaults_optout :=
                   foldl (\<lambda>optout rp. if rp \<in> IGNORED_DIRS_DEFAULT then insert rp optout
                                       else optout)
                         (ignore_defaults_optout ?st2) ?removed\<rparr>"
  have run: "on_remove_ignore fs sel st = Inr (rescan_and_update fs ?core)"
    by (simp only: on_remove_ignore_def index_all_in_range [OF assms(2)]
        pop_all_descending [OF assms] sum.case Let_def)
  have core: "ignore_patterns ?core = ?remaining" "root_path ?core = root_path st"
    "ignore_defaults_optout ?core = ?optout"
    by (auto simp: foldl_optout)
  have "ignore_patterns (rescan_and_update fs ?core) =
          ?remaining @ (case root_path st of None \<Rightarrow> []
                        | Some r \<Rightarrow> auto_added fs r ?optout ?remaining)"
    unfolding rescan_and_update_fields core ..
  then show ?thesis unfolding run by simp
qed

text \<open>
  Claim C6, as amended. For a selection of indices as the list box reports it (ascending,
  each within the pattern list), the remove-ignore operation removes exactly the selected
  entries from the pattern list, after which the rescan that ends the operation appends
  the default names that exist under the root and are neither among the remaining
  patterns nor opted out: these are names that were not in the list before, and there are
  none when every default name under the root was already in the list or opted out. The
  operation adds every removed pattern that is a built-in default to the opt-out set, and
  removes from the exact-exclusion set exactly the files that match some removed pattern
  and no remaining one.
\<close>

theorem remove_ignore_effect:
  assumes "sorted_wrt (<) sel" and "\<forall>i \<in> set sel. i < length (ignore_patterns st)"
  shows "\<exists>st' added.
           on_remove_ignore fs sel st = Inr st'
         \<and> ignore_patterns st' = nths (ignore_patterns st) (- set sel) @ added
         \<and> added =
             (case root_path st of
                None \<Rightarrow> []
              | Some r \<Rightarrow>
                  auto_added fs r
                    (ignore_defaults_optout st
                       \<union> (set (map ((!) (ignore_patterns st)) sel) \<inter> IGNORED_DIRS_DEFAULT))
                    (nths (ignore_patterns st) (- set sel)))
         \<and> set added \<subseteq> IGNORED_DIRS_DEFAULT - set (ignore_patterns st)
         \<and> ((\<forall>r d. root_path st = Some r \<and> d \<in> IGNORED_DIRS_DEFAULT \<and> exists_under fs r d
                \<longrightarrow> d \<in> set (ignore_patterns st) \<or> d \<in> ignore_defaults_optout st)
              \<longrightarrow> added = [])
         \<and> ignore_defaults_optout st' =
             ignore_defaults_optout st
               \<union> (set (map ((!) (ignore_patterns st)) sel) \<inter> IGNORED_DIRS_DEFAULT)
         \<and> excluded_files_set st' =
             excluded_files_set st
               - {p. matches_any p (map ((!) (ignore_patterns st)) sel)
                     \<and> \<not> matches_any p (nths (ignore_patterns st) (- set sel))}"
proof -
  let ?pats = "ignore_patterns st"
  let ?removed = "map ((!) ?pats) sel"
  let ?remaining = "nths ?pats (- set sel)"
  let ?optout = "ignore_defaults_optout st \<union> (set ?removed \<inter> IGNORED_DIRS_DEFAULT)"
  let ?excl = "excluded_files_set st - {p. matches_any p ?removed \<and> \<not> matches_any p ?remaining}"
  let ?st1 = "st\<lparr>ignore_patterns := ?remaining,
                  ignore_patterns_box := fold delete_at (rev sel) (ignore_patterns_box st)\<rparr>"
  let ?st2 = "?st1\<lparr>excluded_files_set := excluded_files_set ?st1
                 - {p \<in> excluded_files_set ?st1.
                      matches_any p ?removed \<and> \<not> matches_any p ?remaining}\<rparr>"
  let ?core = "?st2\<lparr>ignore_defaults_optout :=
                   foldl (\<lambda>optout rp. if rp \<in> IGNORED_DIRS_DEFAULT then insert rp optout
                                       else optout)
                         (ignore_defaults_optout ?st2) ?removed\<rparr>"
  let ?added = "case root_path st of None \<Rightarrow> []
                | Some r \<Rightarrow> auto_added fs r ?optout ?remaining"
  have split: "set ?pats \<subseteq> set ?remaining \<union> set ?removed"
  proof
    fix x assume "x \<in> set ?pats"
    then obtain i where i: "i < length ?pats" "?pats ! i = x" by (auto simp: in_set_conv_nth)
    show "x \<in> set ?remaining \<union> set ?removed"
    proof (cases "i \<in> set sel")
      case True
      then show ?thesis using i by auto
    next
      case False
      then show ?thesis using i by (auto simp: set_nths)
    qed
  qed
  have run: "on_remove_ignore fs sel st = Inr (rescan_and_update fs ?core)"
    by (simp only: on_remove_ignore_def index_all_in_range [OF assms(2)]
        pop_all_descending [OF assms] sum.case Let_def)
  have core: "ignore_patterns ?core = ?remaining" "root_path ?core = root_path st"
    "ignore_defaults_optout ?core = ?optout" "excluded_files_set ?core = ?excl"
    by (auto simp: foldl_optout)
  have pats': "ignore_patterns (rescan_and_update fs ?core) = ?remaining @ ?added"
    unfolding rescan_and_update_fields core ..
  have sub: "set ?added \<subseteq> IGNORED_DIRS_DEFAULT - set ?pats"
  proof (cases "root_path st")
    case None
    then show ?thesis by simp
  next
    case (Some r)
    have "d \<notin> set ?pats" if "d \<in> set (auto_added fs r ?optout ?remaining)" for d
    proof
      assume "d \<in> set ?pats"
      with split have "d \<in> set ?remaining \<or> d \<in> set ?removed" by blast
      with that show False by (auto simp: auto_added_props)
    qed
    then show ?thesis using Some by (auto simp: auto_added_props)
  qed
  have closed: "?added = []"
    if c: "\<forall>r d. root_path st = Some r \<and> d \<in> IGNORED_DIRS_DEFAULT \<and> exists_under fs r d
                \<longrightarrow> d \<in> set ?pats \<or> d \<in> ignore_defaults_optout st"
  proof (cases "root_path st")
    case None
    then show ?thesis by simp
  next
    case (Some r)
    have "d \<notin> set (auto_added fs r ?optout ?remaining)" for d
    proof
      assume d: "d \<in> set (auto_added fs r ?optout ?remaining)"
      then have "d \<in> IGNORED_DIRS_DEFAULT" "exists_under fs r d" "d \<notin> set ?remaining" "d \<notin> ?optout"
        by (auto simp: auto_added_props)
      moreover from this c Some have "d \<in> set ?pats" by blast
      ultimately show False using split by blast
    qed
    then have "auto_added fs r ?optout ?remaining = []"
      by (cases "auto_added fs r ?optout ?remaining") auto
    then show ?thesis using Some by simp
  qed
  have "ignore_defaults_optout (rescan_and_update fs ?core) = ?optout"
    and "excluded_files_set (rescan_and_update fs ?core) = ?excl"
    unfolding rescan_and_update_fields core by (rule refl)+
  with run pats' sub closed show ?thesis by blast
qed

text \<open>
  The claim as written leaves the pattern list with the unselected entries and nothing
  else. When a default name has come to exist under the root since the last rescan, the
  rescan that ends the operation appends it: removing the only pattern leaves
  \<open>dist\<close> in the list, not the empty list.
\<close>

theorem remove_ignore_counterexample:
  "map_sum id ignore_patterns
     (on_remove_ignore (\<lambda>r. Some (Dir [(''dist'', Dir []), (''a.py'', File)])) [0]
        (init_state\<lparr>root_path := Some ''/r'', ignore_patterns := [''*.log'']\<rparr>))
     = Inr [''dist'']
   \<and> nths [''*.log''] (- set [0 :: nat]) = []"
proof
  let ?fs = "\<lambda>r::string. Some (Dir [(''dist'', Dir []), (''a.py'', File)])"
  let ?st = "init_state\<lparr>root_path := Some ''/r'', ignore_patterns := [''*.log'']\<rparr>"
  have h1: "sorted_wrt (<) [0 :: nat]" by simp
  have h2: "\<forall>i \<in> set [0 :: nat]. i < length (ignore_patterns ?st)" by simp
  have o: "ignore_defaults_optout init_state = {}"
    by (simp add: init_state_def update_cmd_preview_def)
  show n: "nths [''*.log''] (- set [0 :: nat]) = []" by (simp add: nths_Cons)
  have a: "auto_added ?fs ''/r'' {} [] = [''dist'']"
    by (simp add: auto_added_def sorted_IGNORED_DIRS_DEFAULT exists_under_def)
  have d: "{''*.log''} \<inter> IGNORED_DIRS_DEFAULT = {}"
    by (simp add: IGNORED_DIRS_DEFAULT_def)
  show "map_sum id ignore_patterns (on_remove_ignore ?fs [0] ?st) = Inr [''dist'']"
    unfolding on_remove_ignore_patterns [OF h1 h2, of ?fs]
    by (simp add: n o a d)
qed


theorem remove_ignore_effect_witness:
  "\<exists>st'. on_remove_ignore
           (\<lambda>r. Some (Dir [(''.git'', Dir []), (''build'', Dir [(''x.o'', File)]),
                            (''a.log'', File), (''a.py'', File)]))
           [0, 2]
           (init_state\<lparr>root_path := Some ''/r'',
                       ignore_patterns := [''.git'', ''*.log'', ''build''],
                       excluded_files_set := {[''build'', ''x.o''], [''a.log'']}\<rparr>) = Inr st'
        \<and> ignore_patterns st' = [''*.log'']
        \<and> ignore_defaults_optout st' = {''.git'', ''build''}
        \<and> excluded_files_set st' = {[''a.log'']}"
proof -
  let ?fs = "\<lambda>r::string. Some (Dir [(''.git'', Dir []), (''build'', Dir [(''x.o'', File)]),
                            (''a.log'', File), (''a.py'', File)])"
  let ?st = "init_state\<lparr>root_path := Some ''/r'',
                       ignore_patterns := [''.git'', ''*.log'', ''build''],
                       excluded_files_set := {[''build'', ''x.o''], [''a.log'']}\<rparr>"
  have f: "ignore_patterns ?st = [''.git'', ''*.log'', ''build'']"
    "excluded_files_set ?st = {[''build'', ''x.o''], [''a.log'']}"
    "root_path ?st = Some ''/r''"
    by simp_all
  have o: "ignore_defaults_optout ?st = {}"
    by (simp add: init_state_def update_cmd_preview_def)
  have h1: "sorted_wrt (<) [0, 2 :: nat]" by simp
  have h2: "\<forall>i \<in> set [0, 2 :: nat]. i < length (ignore_patterns ?st)" by simp
  have removed: "map ((!) (ignore_patterns ?st)) [0, 2] = [''.git'', ''build'']"
    unfolding f by simp
  have remaining: "nths (ignore_patterns ?st) (- set [0, 2]) = [''*.log'']"
    unfolding f by (simp add: nths_Cons)
  have m: "matches_any [''build'', ''x.o''] [''.git'', ''build'']"
    "\<not> matches_any [''build'', ''x.o''] [''*.log'']"
    "\<not> matches_any [''a.log''] [''.git'', ''build'']"
    by (simp_all add: matches_any_def path_str_def glob_eval)
  have dflt: "{''.git'', ''build''} \<inter> IGNORED_DIRS_DEFAULT = {''.git'', ''build''}"
    by (simp add: IGNORED_DIRS_DEFAULT_def)
  have closed: "\<forall>r d. root_path ?st = Some r \<and> d \<in> IGNORED_DIRS_DEFAULT \<and> exists_under ?fs r d
                \<longrightarrow> d \<in> set (ignore_patterns ?st) \<or> d \<in> ignore_defaults_optout ?st"
    unfolding f by (auto simp: exists_under_def IGNORED_DIRS_DEFAULT_def)
  from remove_ignore_effect [OF h1 h2, of ?fs]
  obtain st' added where r:
    "on_remove_ignore ?fs [0, 2] ?st = Inr st'"
    "ignore_patterns st' = nths (ignore_patterns ?st) (- set [0, 2]) @ added"
    "(\<forall>r d. root_path ?st = Some r \<and> d \<in> IGNORED_DIRS_DEFAULT \<and> exists_under ?fs r d
                \<longrightarrow> d \<in> set (ignore_patterns ?st) \<or> d \<in> ignore_defaults_optout ?st)
              \<longrightarrow> added = []"
    "ignore_defaults_optout st' =
             ignore_defaults_optout ?st
               \<union> (set (map ((!) (ignore_patterns ?st)) [0, 2]) \<inter> IGNORED_DIRS_DEFAULT)"
    "excluded_files_set st' =
             excluded_files_set ?st
               - {p. matches_any p (map ((!) (ignore_patterns ?st)) [0, 2])
                     \<and> \<not> matches_any p (nths (ignore_patterns ?st) (- set [0, 2]))}"
    by blast
  from r(3) closed have "added = []" by blast
  with r(2) have p: "ignore_patterns st' = [''*.log'']" unfolding remaining by simp
  from r(4) have q: "ignore_defaults_optout st' = {''.git'', ''build''}"
    unfolding removed o using dflt by simp
  from r(5) have "excluded_files_set st' =
      {[''build'', ''x.o''], [''a.log'']}
        - {p. matches_any p [''.git'', ''build''] \<and> \<not> matches_any p [''*.log'']}"
    unfolding removed remaining unfolding f .
  also have "\<dots> = {[''a.log'']}" using m by auto
  finally have e: "excluded_files_set st' = {[''a.log'']}" .
  from r(1) p q e show ?thesis by blast
qed

section \<open>The state cache: saving and loading\<close>

lemma on_refresh_cases:
  "on_refresh fs st =
     (case root_path st of
        None \<Rightarrow> st
      | Some r \<Rightarrow>
          finish (st\<lparr>all_files := discover_files fs r, excluded_files_set := {},
                ignore_patterns :=
                  ignore_patterns st @ auto_added fs r (ignore_defaults_optout st) (ignore_patterns st)\<rparr>))"
  by (cases "root_path st") (simp_all add: on_refresh_form, simp add: on_refresh_def)

lemma on_refresh_keeps:
  "output_name (on_refresh fs st) = output_name st"
  "style_choice (on_refresh fs st) = style_choice st"
  "header_text (on_refresh fs st) = header_text st"
  "instructions_picker (on_refresh fs st) = instructions_picker st"
  "dir_picker (on_refresh fs st) = dir_picker st"
  "root_path (on_refresh fs st) = root_path st"
  "ignore_defaults_optout (on_refresh fs st) = ignore_defaults_optout st"
  by (simp_all add: on_refresh_cases finish_form split: option.split)

lemma on_refresh_keeps_flags:
  "cb_parsable (on_refresh fs st) = cb_parsable st"
  "cb_compress (on_refresh fs st) = cb_compress st"
  "cb_line_numbers (on_refresh fs st) = cb_line_numbers st"
  "cb_no_file_summary (on_refresh fs st) = cb_no_file_summary st"
  "cb_no_dir_structure (on_refresh fs st) = cb_no_dir_structure st"
  "cb_no_files (on_refresh fs st) = cb_no_files st"
  "cb_remove_comments (on_refresh fs st) = cb_remove_comments st"
  "cb_remove_empty (on_refresh fs st) = cb_remove_empty st"
  "cb_truncate_b64 (on_refresh fs st) = cb_truncate_b64 st"
  "cb_include_empty_dirs (on_refresh fs st) = cb_include_empty_dirs st"
  "cb_no_git_sort (on_refresh fs st) = cb_no_git_sort st"
  "cb_include_diffs (on_refresh fs st) = cb_include_diffs st"
  "cb_include_logs (on_refresh fs st) = cb_include_logs st"
  by (simp_all add: on_refresh_cases finish_form split: option.split)

lemma on_refresh_patterns:
  "ignore_patterns (on_refresh fs st) =
     ignore_patterns st @
       (case root_path st of None \<Rightarrow> []
        | Some r \<Rightarrow> auto_added fs r (ignore_defaults_optout st) (ignore_patterns st))"
  by (simp_all add: on_refresh_cases finish_form split: option.split)

lemma on_refresh_excluded:
  "excluded_files_set (on_refresh fs st) = (if root_path st = None then excluded_files_set st else {})"
  by (simp_all add: on_refresh_cases finish_form split: option.split)


lemma restore_state_texts:
  "output_name (restore_state fs (Some data) st0) = get_or (j_output_name data) (output_name st0)"
  "header_text (restore_state fs (Some data) st0) = get_or (j_header_text data) []"
  "instructions_picker (restore_state fs (Some data) st0) =
     (if get_or (j_instruction_file_path data) [] \<noteq> [] then get_or (j_instruction_file_path data) []
      else instructions_picker st0)"
  "style_choice (restore_state fs (Some data) st0) =
     (case find (\<lambda>c. lower c = lower (get_or (j_style data) ''markdown'')) STYLE_CHOICES of
        None \<Rightarrow> style_choice st0 | Some c \<Rightarrow> c)"
  "dir_picker (restore_state fs (Some data) st0) =
     (if get_or (j_last_dir data) [] \<noteq> [] \<and> is_dir fs (get_or (j_last_dir data) [])
      then get_or (j_last_dir data) [] else dir_picker st0)"
  "root_path (restore_state fs (Some data) st0) =
     (if get_or (j_last_dir data) [] \<noteq> [] \<and> is_dir fs (get_or (j_last_dir data) [])
      then Some (get_or (j_last_dir data) []) else root_path st0)"
  "ignore_defaults_optout (restore_state fs (Some data) st0) =
     (case j_ignore_defaults_optout data of None \<Rightarrow> {} | Some os \<Rightarrow> os)"
  by (simp_all add: restore_state_def Let_def on_refresh_keeps split: option.split)

lemma restore_state_flags:
  "cb_parsable (restore_state fs (Some data) st0) =
     flag_get (case j_flags data of None \<Rightarrow> Map.empty | Some f \<Rightarrow> f) ''parsable'' False"
  "cb_compress (restore_state fs (Some data) st0) =
     flag_get (case j_flags data of None \<Rightarrow> Map.empty | Some f \<Rightarrow> f) ''compress'' False"
  "cb_line_numbers (restore_state fs (Some data) st0) =
     flag_get (case j_flags data of None \<Rightarrow> Map.empty | Some f \<Rightarrow> f) ''line_numbers'' False"
  "cb_no_file_summary (restore_state fs (Some data) st0) =
     flag_get (case j_flags data of None \<Rightarrow> Map.empty | Some f \<Rightarrow> f) ''no_file_summary'' False"
  "cb_no_dir_structure (restore_state fs (Some data) st0) =
     flag_get (case j_flags data of None \<Rightarrow> Map.empty | Some f \<Rightarrow> f) ''no_directory_structure'' False"
  "cb_no_files (restore_state fs (Some data) st0) =
     flag_get (case j_flags data of None \<Rightarrow> Map.empty | Some f \<Rightarrow> f) ''no_files'' False"
  "cb_remove_comments (restore_state fs (Some data) st0) =
     flag_get (case j_flags data of None \<Rightarrow> Map.empty | Some f \<Rightarrow> f) ''remove_comments'' False"
  "cb_remove_empty (restore_state fs (Some data) st0) =
     flag_get (case j_flags data of None \<Rightarrow> Map.empty | Some f \<Rightarrow> f) ''remove_empty'' True"
  "cb_truncate_b64 (restore_state fs (Some data) st0) =
     flag_get (case j_flags data of None \<Rightarrow> Map.empty | Some f \<Rightarrow> f) ''truncate_b64'' False"
  "cb_include_empty_dirs (restore_state fs (Some data) st0) =
     flag_get (case j_flags data of None \<Rightarrow> Map.empty | Some f \<Rightarrow> f) ''include_empty_dirs'' False"
  "cb_no_git_sort (restore_state fs (Some data) st0) =
     flag_get (case j_flags data of None \<Rightarrow> Map.empty | Some f \<Rightarrow> f) ''no_git_sort'' False"
  "cb_include_diffs (restore_state fs (Some data) st0) =
     flag_get (case j_flags data of None \<Rightarrow> Map.empty | Some f \<Rightarrow> f) ''include_diffs'' False"
  "cb_include_logs (restore_state fs (Some data) st0) =
     flag_get (case j_flags data of None \<Rightarrow> Map.empty | Some f \<Rightarrow> f) ''include_logs'' False"
  by (simp_all add: restore_state_def Let_def on_refresh_keeps_flags split: option.split)

lemma restore_state_patterns:
  "ignore_patterns (restore_state fs (Some data) st0) =
     (case j_ignore_patterns data of None \<Rightarrow> [] | Some ps \<Rightarrow> ps) @
       (case root_path (restore_state fs (Some data) st0) of
          None \<Rightarrow> []
        | Some r \<Rightarrow> auto_added fs r
            (case j_ignore_defaults_optout data of None \<Rightarrow> {} | Some os \<Rightarrow> os)
            (case j_ignore_patterns data of None \<Rightarrow> [] | Some ps \<Rightarrow> ps))"
  by (simp add: restore_state_def Let_def on_refresh_keeps on_refresh_patterns split: option.split)

lemma restore_state_excluded:
  "excluded_files_set (restore_state fs (Some data) st0) =
     (if root_path (restore_state fs (Some data) st0) = None
      then (case j_excluded_files data of None \<Rightarrow> {} | Some xs \<Rightarrow> Path_of ` set xs)
      else {})"
  by (simp add: restore_state_def Let_def on_refresh_keeps on_refresh_excluded split: option.split)


lemma persist_state_fields:
  "j_last_dir (persist_state st) = Some (dir_picker st)"
  "j_output_name (persist_state st) = Some (output_name st)"
  "j_style (persist_state st) = Some (style_choice st)"
  "j_header_text (persist_state st) = Some (header_text st)"
  "j_instruction_file_path (persist_state st) = Some (instructions_picker st)"
  "j_ignore_patterns (persist_state st) = Some (ignore_patterns st)"
  "j_ignore_defaults_optout (persist_state st) = Some (ignore_defaults_optout st)"
  by (simp_all add: persist_state_def)

lemma restore_persist_flags:
  "flag_table (restore_state fs (Some (persist_state st)) st0) = flag_table st"
  by (simp add: flag_table_def restore_state_flags persist_state_def flag_get_def)

lemma find_style:
  "s \<in> set STYLE_CHOICES \<Longrightarrow> find (\<lambda>c. lower c = lower s) STYLE_CHOICES = Some s"
  by (auto simp: STYLE_CHOICES_def lower_def lower_char_def)

lemma style_nonempty: "s \<in> set STYLE_CHOICES \<Longrightarrow> s \<noteq> []"
  by (auto simp: STYLE_CHOICES_def)

text \<open>
  Claim C5, as amended. Loading what saving wrote restores the header text, the thirteen
  flags, the opt-out set and the style to their saved values; it restores the output
  name and the instruction file path when the saved value is not empty, and keeps the
  current value otherwise; it restores the directory, in the picker and as the working
  root alike, when the saved path still is a directory, and keeps the current one
  otherwise; and it restores the ignore patterns, after which the rescan of a restored
  directory may append default names that were not in the list. When a key is absent
  the load falls back to the current or the default value: the output name, the
  instruction file path and the directory keep their current values, the header text
  becomes empty, the style becomes \<open>markdown\<close>, and the flag that removes empty lines
  becomes true, be it the whole flag object or only its own key that is absent.
\<close>

theorem restore_after_persist:
  "header_text (restore_state fs (Some (persist_state st)) st0) = header_text st
   \<and> flag_table (restore_state fs (Some (persist_state st)) st0) = flag_table st
   \<and> ignore_defaults_optout (restore_state fs (Some (persist_state st)) st0)
       = ignore_defaults_optout st
   \<and> (style_choice st \<in> set STYLE_CHOICES \<longrightarrow>
        style_choice (restore_state fs (Some (persist_state st)) st0) = style_choice st)
   \<and> output_name (restore_state fs (Some (persist_state st)) st0)
       = (if output_name st = [] then output_name st0 else output_name st)
   \<and> instructions_picker (restore_state fs (Some (persist_state st)) st0)
       = (if instructions_picker st = [] then instructions_picker st0 else instructions_picker st)
   \<and> dir_picker (restore_state fs (Some (persist_state st)) st0)
       = (if dir_picker st \<noteq> [] \<and> is_dir fs (dir_picker st) then dir_picker st
          else dir_picker st0)
   \<and> root_path (restore_state fs (Some (persist_state st)) st0)
       = (if dir_picker st \<noteq> [] \<and> is_dir fs (dir_picker st) then Some (dir_picker st)
          else root_path st0)
   \<and> (\<exists>added. ignore_patterns (restore_state fs (Some (persist_state st)) st0)
                  = ignore_patterns st @ added
         \<and> set added \<subseteq> IGNORED_DIRS_DEFAULT - set (ignore_patterns st)
         \<and> (root_path (restore_state fs (Some (persist_state st)) st0) = None \<longrightarrow> added = []))
   \<and> (j_output_name data = None \<longrightarrow>
        output_name (restore_state fs (Some data) st0) = output_name st0)
   \<and> (j_instruction_file_path data = None \<longrightarrow>
        instructions_picker (restore_state fs (Some data) st0) = instructions_picker st0)
   \<and> (j_last_dir data = None \<longrightarrow>
        dir_picker (restore_state fs (Some data) st0) = dir_picker st0
        \<and> root_path (restore_state fs (Some data) st0) = root_path st0)
   \<and> (j_header_text data = None \<longrightarrow> header_text (restore_state fs (Some data) st0) = [])
   \<and> (j_style data = None \<longrightarrow> style_choice (restore_state fs (Some data) st0) = ''markdown'')
   \<and> (j_flags data = None \<longrightarrow> cb_remove_empty (restore_state fs (Some data) st0))
   \<and> (\<forall>f. j_flags data = Some f \<and> f ''remove_empty'' = None \<longrightarrow>
          cb_remove_empty (restore_state fs (Some data) st0))"
proof (intro conjI impI allI)
  let ?st' = "restore_state fs (Some (persist_state st)) st0"
  show "header_text ?st' = header_text st"
    by (simp add: restore_state_texts persist_state_fields get_or_def str_or_def)
  show "flag_table ?st' = flag_table st" by (rule restore_persist_flags)
  show "ignore_defaults_optout ?st' = ignore_defaults_optout st"
    by (simp add: restore_state_texts persist_state_fields)
  show "style_choice ?st' = style_choice st" if "style_choice st \<in> set STYLE_CHOICES"
    using find_style [OF that] style_nonempty [OF that]
    by (simp add: restore_state_texts persist_state_fields get_or_def str_or_def)
  show "output_name ?st' = (if output_name st = [] then output_name st0 else output_name st)"
    by (simp add: restore_state_texts persist_state_fields get_or_def str_or_def)
  show "instructions_picker ?st'
       = (if instructions_picker st = [] then instructions_picker st0 else instructions_picker st)"
    by (simp add: restore_state_texts persist_state_fields get_or_def str_or_def)
  show "dir_picker ?st'
       = (if dir_picker st \<noteq> [] \<and> is_dir fs (dir_picker st) then dir_picker st
          else dir_picker st0)"
    by (simp add: restore_state_texts persist_state_fields get_or_def str_or_def)
  show "root_path ?st'
       = (if dir_picker st \<noteq> [] \<and> is_dir fs (dir_picker st) then Some (dir_picker st)
          else root_path st0)"
    by (simp add: restore_state_texts persist_state_fields get_or_def str_or_def)
  show "\<exists>added. ignore_patterns ?st' = ignore_patterns st @ added
         \<and> set added \<subseteq> IGNORED_DIRS_DEFAULT - set (ignore_patterns st)
         \<and> (root_path ?st' = None \<longrightarrow> added = [])"
  proof (cases "root_path ?st'")
    case None
    then have "ignore_patterns ?st' = ignore_patterns st @ []"
      using restore_state_patterns [of fs "persist_state st" st0]
      by (simp add: persist_state_fields)
    then show ?thesis by fastforce
  next
    case (Some r)
    let ?a = "auto_added fs r (ignore_defaults_optout st) (ignore_patterns st)"
    have "ignore_patterns ?st' = ignore_patterns st @ ?a"
      using Some restore_state_patterns [of fs "persist_state st" st0]
      by (simp add: persist_state_fields)
    moreover have "set ?a \<subseteq> IGNORED_DIRS_DEFAULT - set (ignore_patterns st)"
      by (auto simp: auto_added_props)
    ultimately show ?thesis using Some by auto
  qed
  show "output_name (restore_state fs (Some data) st0) = output_name st0"
    if "j_output_name data = None"
    using that by (simp add: restore_state_texts get_or_def)
  show "instructions_picker (restore_state fs (Some data) st0) = instructions_picker st0"
    if "j_instruction_file_path data = None"
    using that by (simp add: restore_state_texts get_or_def)
  show "dir_picker (restore_state fs (Some data) st0) = dir_picker st0"
    if "j_last_dir data = None"
    using that by (simp add: restore_state_texts get_or_def)
  show "root_path (restore_state fs (Some data) st0) = root_path st0"
    if "j_last_dir data = None"
    using that by (simp add: restore_state_texts get_or_def)
  show "header_text (restore_state fs (Some data) st0) = []" if "j_header_text data = None"
    using that by (simp add: restore_state_texts get_or_def)
  show "style_choice (restore_state fs (Some data) st0) = ''markdown''" if "j_style data = None"
    using that
    by (simp add: restore_state_texts get_or_def STYLE_CHOICES_def)
  show "cb_remove_empty (restore_state fs (Some data) st0)" if "j_flags data = None"
    using that by (simp add: restore_state_flags flag_get_def)
  show "cb_remove_empty (restore_state fs (Some data) st0)"
    if "j_flags data = Some f \<and> f ''remove_empty'' = None" for f
    using that by (simp add: restore_state_flags flag_get_def)
qed


theorem restore_after_persist_witness:
  "style_choice
     (restore_state (\<lambda>r. if r = ''/r'' then Some (Dir [(''a.py'', File)]) else None)
        (Some (persist_state (init_state\<lparr>style_choice := ''xml'', output_name := ''out.xml''\<rparr>)))
        init_state) = ''xml''
   \<and> output_name
     (restore_state (\<lambda>r. if r = ''/r'' then Some (Dir [(''a.py'', File)]) else None)
        (Some (persist_state (init_state\<lparr>style_choice := ''xml'', output_name := ''out.xml''\<rparr>)))
        init_state) = ''out.xml''
   \<and> cb_remove_empty
     (restore_state (\<lambda>r. if r = ''/r'' then Some (Dir [(''a.py'', File)]) else None)
        (Some \<lparr>j_last_dir = None, j_output_name = None, j_style = None, j_header_text = None,
               j_instruction_file_path = None, j_flags = Some [''compress'' \<mapsto> True],
               j_ignore_patterns = None, j_ignore_defaults_optout = None,
               j_excluded_files = None\<rparr>)
        (init_state\<lparr>cb_remove_empty := False, output_name := ''kept.md''\<rparr>))
   \<and> output_name
     (restore_state (\<lambda>r. if r = ''/r'' then Some (Dir [(''a.py'', File)]) else None)
        (Some \<lparr>j_last_dir = None, j_output_name = None, j_style = None, j_header_text = None,
               j_instruction_file_path = None, j_flags = Some [''compress'' \<mapsto> True],
               j_ignore_patterns = None, j_ignore_defaults_optout = None,
               j_excluded_files = None\<rparr>)
        (init_state\<lparr>cb_remove_empty := False, output_name := ''kept.md''\<rparr>)) = ''kept.md''
   \<and> root_path
     (restore_state (\<lambda>r. if r = ''/r'' then Some (Dir [(''a.py'', File)]) else None)
        (Some (persist_state (init_state\<lparr>dir_picker := ''/r''\<rparr>)))
        init_state) = Some ''/r''"
proof -
  let ?fs = "\<lambda>r. if r = ''/r'' then Some (Dir [(''a.py'', File)]) else None"
  let ?st = "init_state\<lparr>style_choice := ''xml'', output_name := ''out.xml''\<rparr>"
  let ?data = "\<lparr>j_last_dir = None, j_output_name = None, j_style = None, j_header_text = None,
               j_instruction_file_path = None, j_flags = Some [''compress'' \<mapsto> True],
               j_ignore_patterns = None, j_ignore_defaults_optout = None,
               j_excluded_files = None\<rparr>"
  let ?cur = "init_state\<lparr>cb_remove_empty := False, output_name := ''kept.md''\<rparr>"
  have s: "style_choice ?st \<in> set STYLE_CHOICES" by (simp add: STYLE_CHOICES_def)
  have n: "output_name ?st = ''out.xml''" "style_choice ?st = ''xml''" by simp_all
  have k: "j_output_name ?data = None"
    "j_flags ?data = Some [''compress'' \<mapsto> True] \<and> [''compress'' \<mapsto> True] ''remove_empty'' = None"
    by simp_all
  note a = restore_after_persist [of ?fs ?st init_state ?data]
  note b = restore_after_persist [of ?fs ?st ?cur ?data]
  from a s have 1: "style_choice (restore_state ?fs (Some (persist_state ?st)) init_state) = style_choice ?st"
    by blast
  from a have 2: "output_name (restore_state ?fs (Some (persist_state ?st)) init_state)
       = (if output_name ?st = [] then output_name init_state else output_name ?st)"
    by blast
  from b k(2) have 3: "cb_remove_empty (restore_state ?fs (Some ?data) ?cur)" by blast
  from b k(1) have 4: "output_name (restore_state ?fs (Some ?data) ?cur) = output_name ?cur"
    by blast
  let ?dir = "init_state\<lparr>dir_picker := ''/r''\<rparr>"
  have d: "dir_picker ?dir = ''/r''" by simp
  have i: "is_dir ?fs ''/r''" by (simp add: is_dir_def)
  from restore_after_persist [of ?fs ?dir init_state ?data]
  have "root_path (restore_state ?fs (Some (persist_state ?dir)) init_state)
       = (if dir_picker ?dir \<noteq> [] \<and> is_dir ?fs (dir_picker ?dir) then Some (dir_picker ?dir)
          else root_path init_state)"
    by blast
  then have 5: "root_path (restore_state ?fs (Some (persist_state ?dir)) init_state) = Some ''/r''"
    unfolding d using i by simp
  from 1 2 3 4 have "style_choice (restore_state ?fs (Some (persist_state ?st)) init_state) = ''xml''
      \<and> output_name (restore_state ?fs (Some (persist_state ?st)) init_state) = ''out.xml''
      \<and> cb_remove_empty (restore_state ?fs (Some ?data) ?cur)
      \<and> output_name (restore_state ?fs (Some ?data) ?cur) = ''kept.md''"
    unfolding n by simp
  with 5 show ?thesis by simp
qed

text \<open>
  The claim as written restores every field to its saved value. A saved output name that
  is empty is not restored: the load keeps the name the field holds, which at start-up is
  the default name.
\<close>

theorem restore_after_persist_counterexample:
  "output_name (init_state\<lparr>output_name := []\<rparr>) = []
   \<and> output_name (restore_state (\<lambda>r. None)
        (Some (persist_state (init_state\<lparr>output_name := []\<rparr>))) init_state)
       = ''repomix_output.md''"
  by (simp add: restore_state_texts persist_state_fields get_or_def str_or_def init_state_def
      update_cmd_preview_def)

text \<open>
  The exact exclusions are written to the cache and read back, but when the saved
  directory is restored the reset that follows empties them again.
\<close>

lemma restore_state_drops_exclusions:
  "excluded_files_set
     (restore_state (\<lambda>r. if r = ''/r'' then Some (Dir [(''a.py'', File), (''b.py'', File)]) else None)
        (Some (persist_state (init_state\<lparr>dir_picker := ''/r'', root_path := Some ''/r'',
                                          excluded_files_set := {[''a.py'']}\<rparr>)))
        init_state) = {}"
  by (simp add: restore_state_excluded restore_state_texts persist_state_fields get_or_def
      str_or_def is_dir_def)

end
